theory Spec2Isabelle
  imports Main
begin

section \<open>The FederatedTypeConfig controller (pkg/controller/federatedtypeconfig/controller.go)\<close>

subsection \<open>Data\<close>

text \<open>
  A Go value of type \<^verbatim>\<open>chan struct{}\<close> is identified by the number it got when
  \<^verbatim>\<open>make\<close> created it.
\<close>

type_synonym chan = nat

text \<open>The results a reconcile function may return (utils.ReconciliationStatus).\<close>

datatype ReconciliationStatus = StatusAllOK | StatusNeedsRecheck | StatusError

text \<open>
  A reconcile either returns a status or panics: Go's \<^verbatim>\<open>close\<close> panics on a channel
  that is closed already.
\<close>

datatype outcome = Returned ReconciliationStatus | Panicked

datatype ControllerStatus = ControllerStatusRunning | ControllerStatusNotRunning

datatype QualifiedName = QualifiedName (qnNamespace: string) (qnName: string)

text \<open>
  The type descriptor. The getters of package v1beta1 are not part of the sources at
  hand; the record holds what they return once SetFederatedTypeConfigDefaults has run:
  \<open>PropagationEnabled\<close> is GetPropagationEnabled(), \<open>Namespaced\<close> is GetNamespaced(),
  \<open>IsNamespace\<close> is IsNamespace(), \<open>StatusEnabled\<close> is GetStatusEnabled(),
  \<open>FederatedType\<close> is the kind of GetFederatedType() and \<open>StatusType\<close> is
  GetStatusType() (\<open>None\<close> for nil). The last three fields are the Status struct;
  Status.StatusController is a pointer (\<open>None\<close> for nil) and the empty string of a
  fresh Status.PropagationController is \<open>None\<close>.
\<close>

record FederatedTypeConfig =
  Name :: string
  Namespace :: string
  Generation :: int
  DeletionTimestamp :: "nat option"
  Finalizers :: "string list"
  PropagationEnabled :: bool
  Namespaced :: bool
  IsNamespace :: bool
  StatusEnabled :: bool
  FederatedType :: string
  StatusType :: "string option"
  ObservedGeneration :: int
  PropagationController :: "ControllerStatus option"
  StatusController :: "ControllerStatus option"

text \<open>The fields of utils.ControllerConfig that the controller reads.\<close>

record ControllerConfig =
  KubeFedNamespace :: string
  TargetNamespace :: string
  RawResourceStatusCollection :: bool

text \<open>
  What a reconcile does to the world outside the controller, in the order it does it:
  closing a channel, calling StartKubeFedSyncController (with the descriptor, the API
  resource of federated namespaces, the stop channel, the entry the map held under the
  descriptor's name when the call was made, and whether the call succeeded),
  calling StartKubeFedStatusController (likewise, with the entry under the status key),
  enqueueing an object on the worker, patching a descriptor and updating its status
  (with the object sent and whether the API server accepted it).
\<close>

datatype event =
    EvClose chan
  | EvStartSync FederatedTypeConfig "string option" chan "chan option" bool
  | EvStartStatus FederatedTypeConfig chan "chan option" bool
  | EvEnqueue QualifiedName
  | EvPatch FederatedTypeConfig bool
  | EvUpdateStatus FederatedTypeConfig bool

text \<open>
  The controller: its configuration, the map of stop channels and the store of the
  informer (keyed by qualified name; QualifiedName.String() is not in the sources),
  together with the channels closed so far, the number of the next channel \<^verbatim>\<open>make\<close>
  hands out, and the log of effects.
\<close>

record Controller =
  controllerConfig :: ControllerConfig
  stopChannels :: "string \<rightharpoonup> chan"
  store :: "(QualifiedName \<times> FederatedTypeConfig) list"
  closedChans :: "chan set"
  nextChan :: chan
  effects :: "event list"

text \<open>
  The outcomes of the calls a reconcile makes to its collaborators: whether
  store.GetByKey fails for a key, whether client.Patch and client.UpdateStatus fail, and
  whether StartKubeFedSyncController and StartKubeFedStatusController fail.
\<close>

record Env =
  getByKeyErr :: "QualifiedName \<Rightarrow> bool"
  patchErr :: bool
  updateStatusErr :: bool
  startSyncErr :: bool
  startStatusErr :: bool

subsection \<open>Constants\<close>

definition finalizer :: string where
  "finalizer = ''core.kubefed.io/federated-type-config''"

text \<open>metav1.NamespaceAll of k8s.io/apimachinery.\<close>

definition NamespaceAll :: string where
  "NamespaceAll = ''''"

text \<open>
  Modelled from the spec: utils.NamespaceName, the name of the \<^emph>\<open>namespaces\<close> descriptor,
  is declared outside the sources at hand.
\<close>

definition NamespaceName :: string where
  "NamespaceName = ''namespaces''"

subsection \<open>Channels and the map of stop channels\<close>

definition makeChan :: "Controller \<Rightarrow> chan \<times> Controller" where
  "makeChan c = (nextChan c, c\<lparr>nextChan := Suc (nextChan c)\<rparr>)"

text \<open>\<open>None\<close> is the panic of closing a closed channel.\<close>

definition closeChan :: "chan \<Rightarrow> Controller \<Rightarrow> Controller option" where
  "closeChan ch c =
     (if ch \<in> closedChans c then None
      else Some (c\<lparr>closedChans := insert ch (closedChans c),
                    effects := effects c @ [EvClose ch]\<rparr>))"

text \<open>Go returns the channel and whether the key is present; \<open>Some ch\<close> is present.\<close>

definition getStopChannel :: "Controller \<Rightarrow> string \<Rightarrow> chan option" where
  "getStopChannel c name = stopChannels c name"

definition stopController :: "string \<Rightarrow> chan \<Rightarrow> Controller \<Rightarrow> Controller option" where
  "stopController key stopChan c =
     (case closeChan stopChan c of
        None \<Rightarrow> None
      | Some c1 \<Rightarrow> Some (c1\<lparr>stopChannels := (stopChannels c1)(key := None)\<rparr>))"

subsection \<open>The store\<close>

text \<open>\<open>Inl ()\<close> is the error of the store, \<open>Inr None\<close> a key that does not exist.\<close>

definition objCopyFromCache ::
  "Env \<Rightarrow> Controller \<Rightarrow> QualifiedName \<Rightarrow> unit + FederatedTypeConfig option" where
  "objCopyFromCache env c key =
     (if getByKeyErr env key then Inl () else Inr (map_of (store c) key))"

definition getFederatedNamespaceAPIResource :: "Env \<Rightarrow> Controller \<Rightarrow> unit + string" where
  "getFederatedNamespaceAPIResource env c =
     (let qualifiedName = QualifiedName (KubeFedNamespace (controllerConfig c)) NamespaceName
      in if getByKeyErr env qualifiedName then Inl ()
         else (case map_of (store c) qualifiedName of
                 None \<Rightarrow> Inl ()
               | Some namespaceTypeConfig \<Rightarrow> Inr (FederatedType namespaceTypeConfig)))"

definition namespaceFTCExists :: "Env \<Rightarrow> Controller \<Rightarrow> bool" where
  "namespaceFTCExists env c =
     (case getFederatedNamespaceAPIResource env c of Inl _ \<Rightarrow> False | Inr _ \<Rightarrow> True)"

text \<open>
  The qualified name of an object (utils.NewQualifiedName), under which the store holds
  it.
\<close>

definition keyOf :: "FederatedTypeConfig \<Rightarrow> QualifiedName" where
  "keyOf tc = QualifiedName (Namespace tc) (Name tc)"

text \<open>worker.EnqueueObject enqueues the qualified name of the object.\<close>

definition EnqueueObject :: "FederatedTypeConfig \<Rightarrow> Controller \<Rightarrow> Controller" where
  "EnqueueObject obj c = c\<lparr>effects := effects c @ [EvEnqueue (keyOf obj)]\<rparr>"

text \<open>The loop of reconcileOnNamespaceFTCUpdate over store.List().\<close>

fun enqueueNamespaced :: "FederatedTypeConfig list \<Rightarrow> Controller \<Rightarrow> Controller" where
  "enqueueNamespaced [] c = c"
| "enqueueNamespaced (typeConfig # rest) c =
     enqueueNamespaced rest
       (if Namespaced typeConfig \<and> \<not> IsNamespace typeConfig
        then EnqueueObject typeConfig c else c)"

definition reconcileOnNamespaceFTCUpdate :: "Controller \<Rightarrow> Controller" where
  "reconcileOnNamespaceFTCUpdate c = enqueueNamespaced (map snd (store c)) c"

subsection \<open>Finalizers and the status update\<close>

text \<open>
  controllerutil.ContainsFinalizer, AddFinalizer and RemoveFinalizer of
  controller-runtime.
\<close>

definition ContainsFinalizer :: "FederatedTypeConfig \<Rightarrow> string \<Rightarrow> bool" where
  "ContainsFinalizer tc f = (f \<in> set (Finalizers tc))"

definition AddFinalizer :: "FederatedTypeConfig \<Rightarrow> string \<Rightarrow> FederatedTypeConfig" where
  "AddFinalizer tc f =
     (if f \<in> set (Finalizers tc) then tc else tc\<lparr>Finalizers := Finalizers tc @ [f]\<rparr>)"

definition RemoveFinalizer :: "FederatedTypeConfig \<Rightarrow> string \<Rightarrow> FederatedTypeConfig" where
  "RemoveFinalizer tc f = tc\<lparr>Finalizers := filter (\<lambda>g. g \<noteq> f) (Finalizers tc)\<rparr>"

text \<open>
  The result is the controller, the descriptor as it is after the call, whether the
  finalizer was added, and whether the call returned no error.
\<close>

definition ensureFinalizer ::
  "Env \<Rightarrow> FederatedTypeConfig \<Rightarrow> Controller
     \<Rightarrow> Controller \<times> FederatedTypeConfig \<times> bool \<times> bool" where
  "ensureFinalizer env tc c =
     (if ContainsFinalizer tc finalizer then (c, tc, False, True)
      else (let tc1 = AddFinalizer tc finalizer
            in (c\<lparr>effects := effects c @ [EvPatch tc1 (\<not> patchErr env)]\<rparr>,
                tc1, True, \<not> patchErr env)))"

text \<open>The result is the controller and whether the call returned no error.\<close>

definition removeFinalizer ::
  "Env \<Rightarrow> FederatedTypeConfig \<Rightarrow> Controller \<Rightarrow> Controller \<times> bool" where
  "removeFinalizer env tc c =
     (if \<not> ContainsFinalizer tc finalizer then (c, True)
      else (let tc1 = RemoveFinalizer tc finalizer
            in (c\<lparr>effects := effects c @ [EvPatch tc1 (\<not> patchErr env)]\<rparr>,
                \<not> patchErr env)))"

definition UpdateStatus ::
  "Env \<Rightarrow> FederatedTypeConfig \<Rightarrow> Controller \<Rightarrow> Controller \<times> bool" where
  "UpdateStatus env tc c =
     (c\<lparr>effects := effects c @ [EvUpdateStatus tc (\<not> updateStatusErr env)]\<rparr>,
      \<not> updateStatusErr env)"

subsection \<open>Starting and refreshing controllers\<close>

definition isEnabledFederatedServiceStatusCollection :: "FederatedTypeConfig \<Rightarrow> bool" where
  "isEnabledFederatedServiceStatusCollection tc =
     (if StatusEnabled tc \<and> Name tc = ''services''
      then (case StatusType tc of None \<Rightarrow> False | Some _ \<Rightarrow> True)
      else False)"

text \<open>
  The result is the controller and whether the start returned no error. A descriptor
  of a namespaced type needs the descriptor of namespaces; without it the function
  returns before a channel is made. The channel closed after a failed start was made
  by this call, so that close cannot panic.
\<close>

definition startSyncController ::
  "Env \<Rightarrow> FederatedTypeConfig \<Rightarrow> Controller \<Rightarrow> Controller \<times> bool" where
  "startSyncController env tc c =
     (case (if Namespaced tc
            then (case getFederatedNamespaceAPIResource env c of
                    Inl e \<Rightarrow> Inl e | Inr r \<Rightarrow> Inr (Some r))
            else Inr None) of
        Inl _ \<Rightarrow> (c, False)
      | Inr fedNamespaceAPIResource \<Rightarrow>
          (let (stopChan, c1) = makeChan c;
               ok = \<not> startSyncErr env;
               c2 = c1\<lparr>effects := effects c1 @
                      [EvStartSync tc fedNamespaceAPIResource stopChan
                         (stopChannels c1 (Name tc)) ok]\<rparr>
           in if \<not> ok
              then (c2\<lparr>closedChans := insert stopChan (closedChans c2),
                       effects := effects c2 @ [EvClose stopChan]\<rparr>, False)
              else (c2\<lparr>stopChannels := (stopChannels c2)(Name tc \<mapsto> stopChan)\<rparr>, True)))"

definition startStatusController ::
  "Env \<Rightarrow> string \<Rightarrow> FederatedTypeConfig \<Rightarrow> Controller \<Rightarrow> Controller \<times> bool" where
  "startStatusController env statusKey tc c =
     (let (stopChan, c1) = makeChan c;
          ok = \<not> startStatusErr env;
          c2 = c1\<lparr>effects := effects c1 @
                 [EvStartStatus tc stopChan (stopChannels c1 statusKey) ok]\<rparr>
      in if \<not> ok
         then (c2\<lparr>closedChans := insert stopChan (closedChans c2),
                  effects := effects c2 @ [EvClose stopChan]\<rparr>, False)
         else (c2\<lparr>stopChannels := (stopChannels c2)(statusKey \<mapsto> stopChan)\<rparr>, True))"

text \<open>\<open>None\<close> is a panic; otherwise the controller and whether the start succeeded.\<close>

definition refreshSyncController ::
  "Env \<Rightarrow> FederatedTypeConfig \<Rightarrow> Controller \<Rightarrow> (Controller \<times> bool) option" where
  "refreshSyncController env tc c =
     (case getStopChannel c (Name tc) of
        None \<Rightarrow> Some (startSyncController env tc c)
      | Some syncStopChan \<Rightarrow>
          (case stopController (Name tc) syncStopChan c of
             None \<Rightarrow> None
           | Some c1 \<Rightarrow> Some (startSyncController env tc c1)))"

subsection \<open>reconcile\<close>

text \<open>
  Lines 160 to 183: a cluster-scoped type under a namespaced control plane. A holder
  channel is stored under the descriptor's name when the map has none, and the status
  is written as not running.
\<close>

definition reconcileLimitedScope ::
  "Env \<Rightarrow> FederatedTypeConfig \<Rightarrow> Controller \<Rightarrow> Controller \<times> outcome" where
  "reconcileLimitedScope env typeConfig c =
     (let c1 = (case getStopChannel c (Name typeConfig) of
                  Some _ \<Rightarrow> c
                | None \<Rightarrow>
                    (let (holderChan, c0) = makeChan c
                     in c0\<lparr>stopChannels := (stopChannels c0)(Name typeConfig \<mapsto> holderChan)\<rparr>));
          typeConfig1 = typeConfig
            \<lparr>ObservedGeneration := Generation typeConfig,
             PropagationController := Some ControllerStatusNotRunning,
             StatusController := Some ControllerStatusNotRunning\<rparr>;
          (c2, ok) = UpdateStatus env typeConfig1 c1
      in if \<not> ok then (c2, Returned StatusError) else (c2, Returned StatusAllOK))"

text \<open>Lines 190 to 209: the descriptor is being deleted.\<close>

definition reconcileDeleted ::
  "Env \<Rightarrow> FederatedTypeConfig \<Rightarrow> string \<Rightarrow> chan option \<Rightarrow> chan option \<Rightarrow> Controller
     \<Rightarrow> Controller \<times> outcome" where
  "reconcileDeleted env typeConfig statusKey syncStopChan statusStopChan c =
     (case (case syncStopChan of
              None \<Rightarrow> Some c
            | Some ch \<Rightarrow> stopController (Name typeConfig) ch c) of
        None \<Rightarrow> (c, Panicked)
      | Some c1 \<Rightarrow>
          (case (case statusStopChan of
                   None \<Rightarrow> Some c1
                 | Some ch \<Rightarrow> stopController statusKey ch c1) of
             None \<Rightarrow> (c1, Panicked)
           | Some c2 \<Rightarrow>
               (let c3 = (if IsNamespace typeConfig
                          then reconcileOnNamespaceFTCUpdate c2 else c2);
                    (c4, ok) = removeFinalizer env typeConfig c3
                in if \<not> ok then (c4, Returned StatusError)
                   else (c4, Returned StatusAllOK))))"

text \<open>
  The steps of lines 225 to 251 each either end the reconcile with an outcome or let it
  go on: in their results the second component is \<open>None\<close> when the reconcile goes
  on. \<open>andThen\<close> runs the next step only in that case, as an early return does.
\<close>

definition andThen ::
  "Controller \<times> outcome option \<Rightarrow> (Controller \<Rightarrow> Controller \<times> outcome option)
     \<Rightarrow> Controller \<times> outcome option" where
  "andThen r f = (case r of (c, Some out) \<Rightarrow> (c, Some out) | (c, None) \<Rightarrow> f c)"

text \<open>Lines 225 to 232.\<close>

definition syncStep ::
  "Env \<Rightarrow> FederatedTypeConfig \<Rightarrow> chan option \<Rightarrow> bool \<Rightarrow> bool \<Rightarrow> Controller
     \<Rightarrow> Controller \<times> outcome option" where
  "syncStep env typeConfig syncStopChan startNewSyncController stopSyncController c =
     (if startNewSyncController
      then (let (c1, ok) = startSyncController env typeConfig c
            in if \<not> ok then (c1, Some (Returned StatusError)) else (c1, None))
      else if stopSyncController
      then (case syncStopChan of
              None \<Rightarrow> (c, None)
            | Some ch \<Rightarrow>
                (case stopController (Name typeConfig) ch c of
                   None \<Rightarrow> (c, Some Panicked)
                 | Some c1 \<Rightarrow> (c1, None)))
      else (c, None))"

text \<open>Lines 236 to 243.\<close>

definition statusStep ::
  "Env \<Rightarrow> FederatedTypeConfig \<Rightarrow> string \<Rightarrow> chan option \<Rightarrow> bool \<Rightarrow> bool \<Rightarrow> Controller
     \<Rightarrow> Controller \<times> outcome option" where
  "statusStep env typeConfig statusKey statusStopChan startNewStatusController
       stopStatusController c =
     (if startNewStatusController
      then (let (c1, ok) = startStatusController env statusKey typeConfig c
            in if \<not> ok then (c1, Some (Returned StatusError)) else (c1, None))
      else if stopStatusController
      then (case statusStopChan of
              None \<Rightarrow> (c, None)
            | Some ch \<Rightarrow>
                (case stopController statusKey ch c of
                   None \<Rightarrow> (c, Some Panicked)
                 | Some c1 \<Rightarrow> (c1, None)))
      else (c, None))"

text \<open>Lines 245 to 251.\<close>

definition refreshStep ::
  "Env \<Rightarrow> FederatedTypeConfig \<Rightarrow> bool \<Rightarrow> bool \<Rightarrow> Controller
     \<Rightarrow> Controller \<times> outcome option" where
  "refreshStep env typeConfig startNewSyncController stopSyncController c =
     (if \<not> startNewSyncController \<and> \<not> stopSyncController \<and>
         ObservedGeneration typeConfig \<noteq> Generation typeConfig
      then (case refreshSyncController env typeConfig c of
              None \<Rightarrow> (c, Some Panicked)
            | Some (c1, ok) \<Rightarrow>
                if \<not> ok then (c1, Some (Returned StatusError)) else (c1, None))
      else (c, None))"

text \<open>Lines 253 to 276.\<close>

definition publishStatus ::
  "Env \<Rightarrow> FederatedTypeConfig \<Rightarrow> bool \<Rightarrow> bool \<Rightarrow> Controller \<Rightarrow> Controller \<times> outcome" where
  "publishStatus env typeConfig syncControllerRunning statusControllerRunning c =
     (let typeConfig1 = typeConfig
            \<lparr>ObservedGeneration := Generation typeConfig,
             PropagationController :=
               Some (if syncControllerRunning then ControllerStatusRunning
                     else ControllerStatusNotRunning),
             StatusController :=
               Some (if statusControllerRunning then ControllerStatusRunning
                     else ControllerStatusNotRunning)\<rparr>;
          (c1, ok) = UpdateStatus env typeConfig1 c
      in if \<not> ok then (c1, Returned StatusError) else (c1, Returned StatusAllOK))"

text \<open>Lines 211 to 277: the descriptor is not being deleted.\<close>

definition reconcileActive ::
  "Env \<Rightarrow> FederatedTypeConfig \<Rightarrow> bool \<Rightarrow> bool \<Rightarrow> string \<Rightarrow> chan option \<Rightarrow> chan option
     \<Rightarrow> Controller \<Rightarrow> Controller \<times> outcome" where
  "reconcileActive env typeConfig0 syncEnabled statusControllerEnabled statusKey
       syncStopChan statusStopChan c =
     (case ensureFinalizer env typeConfig0 c of
        (c1, typeConfig, updated, ok) \<Rightarrow>
          if \<not> ok then (c1, Returned StatusError)
          else
            (let c2 = (if updated \<and> IsNamespace typeConfig
                       then reconcileOnNamespaceFTCUpdate c1 else c1);
                 syncRunning = (syncStopChan \<noteq> None);
                 statusRunning = (statusStopChan \<noteq> None);
                 startNewSyncController = (\<not> syncRunning \<and> syncEnabled);
                 stopSyncController =
                   (syncRunning \<and>
                    (\<not> syncEnabled \<or>
                     (Namespaced typeConfig \<and> \<not> namespaceFTCExists env c2)));
                 startNewStatusController = (\<not> statusRunning \<and> statusControllerEnabled);
                 stopStatusController = (statusRunning \<and> \<not> statusControllerEnabled)
             in case andThen
                       (andThen
                          (syncStep env typeConfig syncStopChan startNewSyncController
                             stopSyncController c2)
                          (statusStep env typeConfig statusKey statusStopChan
                             startNewStatusController stopStatusController))
                       (refreshStep env typeConfig startNewSyncController
                          stopSyncController) of
                  (c5, Some out) \<Rightarrow> (c5, out)
                | (c5, None) \<Rightarrow>
                    publishStatus env typeConfig
                      (startNewSyncController \<or> (syncRunning \<and> \<not> stopSyncController))
                      (startNewStatusController \<or>
                       (statusRunning \<and> \<not> stopStatusController))
                      c5))"

definition reconcile :: "Env \<Rightarrow> QualifiedName \<Rightarrow> Controller \<Rightarrow> Controller \<times> outcome" where
  "reconcile env qualifiedName c =
     (case objCopyFromCache env c qualifiedName of
        Inl _ \<Rightarrow> (c, Returned StatusError)
      | Inr None \<Rightarrow> (c, Returned StatusAllOK)
      | Inr (Some typeConfig) \<Rightarrow>
          (let syncEnabled = PropagationEnabled typeConfig;
               statusControllerEnabled =
                 (\<not> RawResourceStatusCollection (controllerConfig c) \<and>
                  isEnabledFederatedServiceStatusCollection typeConfig);
               limitedScope = (TargetNamespace (controllerConfig c) \<noteq> NamespaceAll)
           in if limitedScope \<and> syncEnabled \<and> \<not> Namespaced typeConfig
              then reconcileLimitedScope env typeConfig c
              else
                (let statusKey = Name typeConfig @ ''/status'';
                     syncStopChan = getStopChannel c (Name typeConfig);
                     statusStopChan = getStopChannel c statusKey
                 in if DeletionTimestamp typeConfig \<noteq> None
                    then reconcileDeleted env typeConfig statusKey syncStopChan
                           statusStopChan c
                    else reconcileActive env typeConfig syncEnabled statusControllerEnabled
                           statusKey syncStopChan statusStopChan c)))"

subsection \<open>The states the controller reaches\<close>

text \<open>newController: no stop channel yet, and a store the informer has yet to fill.\<close>

definition newController :: "ControllerConfig \<Rightarrow> Controller" where
  "newController config =
     \<lparr>controllerConfig = config, stopChannels = Map.empty, store = [],
      closedChans = {}, nextChan = 0, effects = []\<rparr>"

text \<open>
  The controller starts as newController returns it. The informer replaces the
  contents of the store at any time; the worker runs reconcile, and a reconcile that
  panics ends the process; each round of the loop of shutDown closes one channel of the
  map and deletes its key, which is what stopController does.
\<close>

inductive reachable :: "Controller \<Rightarrow> bool" where
  reachable_new: "reachable (newController config)"
| reachable_informer: "reachable c \<Longrightarrow> reachable (c\<lparr>store := objs\<rparr>)"
| reachable_reconcile:
    "reachable c \<Longrightarrow> reconcile env qualifiedName c = (c', Returned status) \<Longrightarrow> reachable c'"
| reachable_shutDown:
    "reachable c \<Longrightarrow> stopChannels c key = Some stopChannel \<Longrightarrow>
     stopController key stopChannel c = Some c' \<Longrightarrow> reachable c'"

subsection \<open>Notions used to state the properties\<close>

text \<open>The effects of a run that leads from \<open>c\<close> to \<open>c'\<close>.\<close>

definition newEffects :: "Controller \<Rightarrow> Controller \<Rightarrow> event list" where
  "newEffects c c' = drop (length (effects c)) (effects c')"

definition isSyncStart :: "event \<Rightarrow> bool" where
  "isSyncStart e = (case e of EvStartSync _ _ _ _ _ \<Rightarrow> True | _ \<Rightarrow> False)"

definition isStatusStart :: "event \<Rightarrow> bool" where
  "isStatusStart e = (case e of EvStartStatus _ _ _ _ \<Rightarrow> True | _ \<Rightarrow> False)"

text \<open>
  The condition of line 160: the control plane is namespaced (its target namespace is
  not all namespaces), propagation is enabled and the target type is cluster-scoped.
\<close>

definition specialCase :: "Controller \<Rightarrow> FederatedTypeConfig \<Rightarrow> bool" where
  "specialCase c tc =
     (TargetNamespace (controllerConfig c) \<noteq> NamespaceAll \<and> PropagationEnabled tc \<and>
      \<not> Namespaced tc)"

text \<open>The value of statusControllerEnabled in reconcile (line 157).\<close>

definition statusControllerEnabled :: "Controller \<Rightarrow> FederatedTypeConfig \<Rightarrow> bool" where
  "statusControllerEnabled c tc =
     (\<not> RawResourceStatusCollection (controllerConfig c) \<and>
      isEnabledFederatedServiceStatusCollection tc)"

text \<open>The key of the status controller of a descriptor (line 185).\<close>

definition statusKeyOf :: "FederatedTypeConfig \<Rightarrow> string" where
  "statusKeyOf tc = Name tc @ ''/status''"

text \<open>
  The finalizer is on the descriptor, or the patch that adds it succeeds: ensureFinalizer
  returns no error.
\<close>

definition finalizerEnsured :: "Env \<Rightarrow> FederatedTypeConfig \<Rightarrow> bool" where
  "finalizerEnsured env tc = (ContainsFinalizer tc finalizer \<or> \<not> patchErr env)"

text \<open>
  startSyncController returns no error: StartKubeFedSyncController succeeds and, for a
  namespaced type, the descriptor of namespaces is in the store.
\<close>

definition syncStartSucceeds :: "Env \<Rightarrow> Controller \<Rightarrow> FederatedTypeConfig \<Rightarrow> bool" where
  "syncStartSucceeds env c tc =
     (\<not> startSyncErr env \<and> (Namespaced tc \<longrightarrow> namespaceFTCExists env c))"

text \<open>The values of startNewSyncController and stopSyncController (lines 223, 224).\<close>

definition startsSync :: "Controller \<Rightarrow> FederatedTypeConfig \<Rightarrow> bool" where
  "startsSync c tc = (stopChannels c (Name tc) = None \<and> PropagationEnabled tc)"

definition stopsSync :: "Env \<Rightarrow> Controller \<Rightarrow> FederatedTypeConfig \<Rightarrow> bool" where
  "stopsSync env c tc =
     (stopChannels c (Name tc) \<noteq> None \<and>
      (\<not> PropagationEnabled tc \<or> (Namespaced tc \<and> \<not> namespaceFTCExists env c)))"

text \<open>The values of startNewStatusController and stopStatusController (lines 234, 235).\<close>

definition startsStatus :: "Controller \<Rightarrow> FederatedTypeConfig \<Rightarrow> bool" where
  "startsStatus c tc =
     (stopChannels c (statusKeyOf tc) = None \<and> statusControllerEnabled c tc)"

definition stopsStatus :: "Controller \<Rightarrow> FederatedTypeConfig \<Rightarrow> bool" where
  "stopsStatus c tc =
     (stopChannels c (statusKeyOf tc) \<noteq> None \<and> \<not> statusControllerEnabled c tc)"

text \<open>
  The events of reconcileOnNamespaceFTCUpdate: one for every descriptor of the store
  that is namespaced and is not the descriptor of namespaces, in the order of the store.
\<close>

definition enqueueEvents :: "Controller \<Rightarrow> event list" where
  "enqueueEvents c =
     map (\<lambda>t. EvEnqueue (keyOf t))
       (filter (\<lambda>t. Namespaced t \<and> \<not> IsNamespace t) (map snd (store c)))"

text \<open>The event of ensureFinalizer, if it has one.\<close>

definition finalizerPatch :: "Env \<Rightarrow> FederatedTypeConfig \<Rightarrow> event list" where
  "finalizerPatch env tc =
     (if ContainsFinalizer tc finalizer then []
      else [EvPatch (AddFinalizer tc finalizer) (\<not> patchErr env)])"

text \<open>The controller at line 223, when ensureFinalizer returned no error.\<close>

definition afterFinalizer :: "Env \<Rightarrow> FederatedTypeConfig \<Rightarrow> Controller \<Rightarrow> Controller" where
  "afterFinalizer env tc c =
     c\<lparr>effects := effects c @ finalizerPatch env tc @
        (if \<not> ContainsFinalizer tc finalizer \<and> IsNamespace tc then enqueueEvents c else [])\<rparr>"

text \<open>The API resource that startSyncController hands to the sync controller.\<close>

definition fedNamespaceResource ::
  "Env \<Rightarrow> Controller \<Rightarrow> FederatedTypeConfig \<Rightarrow> string option" where
  "fedNamespaceResource env c tc =
     (if Namespaced tc
      then (case getFederatedNamespaceAPIResource env c of Inl _ \<Rightarrow> None | Inr r \<Rightarrow> Some r)
      else None)"

text \<open>
  Lines 223 to 251 for the descriptor \<open>tc\<close> as the store holds it: the three steps
  with the arguments reconcile gives them, and their sequence.
\<close>

definition syncStepOf ::
  "Env \<Rightarrow> FederatedTypeConfig \<Rightarrow> Controller \<Rightarrow> Controller \<times> outcome option" where
  "syncStepOf env tc c =
     syncStep env (AddFinalizer tc finalizer) (stopChannels c (Name tc))
       (startsSync c tc) (stopsSync env c tc) (afterFinalizer env tc c)"

definition statusStepOf ::
  "Env \<Rightarrow> FederatedTypeConfig \<Rightarrow> Controller \<Rightarrow> Controller \<Rightarrow> Controller \<times> outcome option" where
  "statusStepOf env tc c =
     statusStep env (AddFinalizer tc finalizer) (statusKeyOf tc)
       (stopChannels c (statusKeyOf tc)) (startsStatus c tc) (stopsStatus c tc)"

definition refreshStepOf ::
  "Env \<Rightarrow> FederatedTypeConfig \<Rightarrow> Controller \<Rightarrow> Controller \<Rightarrow> Controller \<times> outcome option" where
  "refreshStepOf env tc c =
     refreshStep env (AddFinalizer tc finalizer) (startsSync c tc) (stopsSync env c tc)"

definition activeSteps ::
  "Env \<Rightarrow> FederatedTypeConfig \<Rightarrow> Controller \<Rightarrow> Controller \<times> outcome option" where
  "activeSteps env tc c =
     andThen (andThen (syncStepOf env tc c) (statusStepOf env tc c)) (refreshStepOf env tc c)"

text \<open>
  The start of the sync controller at line 226 fails, and the start of the status
  controller at line 237 fails.
\<close>

definition syncStepFails :: "Env \<Rightarrow> Controller \<Rightarrow> FederatedTypeConfig \<Rightarrow> bool" where
  "syncStepFails env c tc = (startsSync c tc \<and> \<not> syncStartSucceeds env c tc)"

definition statusStepFails :: "Env \<Rightarrow> Controller \<Rightarrow> FederatedTypeConfig \<Rightarrow> bool" where
  "statusStepFails env c tc = (startsStatus c tc \<and> startStatusErr env)"

text \<open>
  The effects of the path of deletion (lines 190 to 209): the closes of the channels
  stored under the name and under the status key, the enqueues when the descriptor is
  the one of namespaces, and the patch that removes the finalizer when it is there.
\<close>

definition deletionCloses :: "Controller \<Rightarrow> FederatedTypeConfig \<Rightarrow> event list" where
  "deletionCloses c tc =
     (case stopChannels c (Name tc) of None \<Rightarrow> [] | Some ch \<Rightarrow> [EvClose ch]) @
     (case stopChannels c (statusKeyOf tc) of None \<Rightarrow> [] | Some ch \<Rightarrow> [EvClose ch])"

definition deletionPatch :: "Env \<Rightarrow> FederatedTypeConfig \<Rightarrow> event list" where
  "deletionPatch env tc =
     (if ContainsFinalizer tc finalizer
      then [EvPatch (RemoveFinalizer tc finalizer) (\<not> patchErr env)] else [])"

text \<open>
  An event that is a successful start of a controller with the given stop channel; and
  a run from \<open>c\<close> to \<open>c'\<close> in which every entry of the map that is new belongs to a
  controller the run started successfully.
\<close>

definition startedWith :: "event \<Rightarrow> chan \<Rightarrow> bool" where
  "startedWith e ch =
     (case e of
        EvStartSync _ _ ch' _ ok \<Rightarrow> ok \<and> ch' = ch
      | EvStartStatus _ ch' _ ok \<Rightarrow> ok \<and> ch' = ch
      | _ \<Rightarrow> False)"

definition onlyStartedRegistered :: "Controller \<Rightarrow> Controller \<Rightarrow> bool" where
  "onlyStartedRegistered c c' =
     (\<exists>es. effects c' = effects c @ es \<and>
           (\<forall>k ch. stopChannels c' k = Some ch \<longrightarrow>
              stopChannels c k = Some ch \<or> (\<exists>e \<in> set es. startedWith e ch)))"

text \<open>
  The channels of the map are open, were made before, and none is stored under two
  keys; the closed channels were made before. Every state the controller reaches is
  such a state (lemma \<open>reachable_wellFormed\<close>), so no close of a reconcile panics.
\<close>

definition wellFormed :: "Controller \<Rightarrow> bool" where
  "wellFormed c =
     ((\<forall>k ch. stopChannels c k = Some ch \<longrightarrow>
         ch \<notin> closedChans c \<and> ch < nextChan c \<and>
         (\<forall>k'. stopChannels c k' = Some ch \<longrightarrow> k' = k)) \<and>
      (\<forall>ch \<in> closedChans c. ch < nextChan c))"

text \<open>
  The stop channels of the sync controllers and of the status controllers that were
  started for a descriptor of the given name and have not been stopped.
\<close>

definition runningSync :: "Controller \<Rightarrow> string \<Rightarrow> chan list" where
  "runningSync c name =
     concat (map (\<lambda>e. case e of
                        EvStartSync d _ ch _ ok \<Rightarrow>
                          if ok \<and> Name d = name \<and> ch \<notin> closedChans c then [ch] else []
                      | _ \<Rightarrow> [])
               (effects c))"

definition runningStatus :: "Controller \<Rightarrow> string \<Rightarrow> chan list" where
  "runningStatus c name =
     concat (map (\<lambda>e. case e of
                        EvStartStatus d ch _ ok \<Rightarrow>
                          if ok \<and> Name d = name \<and> ch \<notin> closedChans c then [ch] else []
                      | _ \<Rightarrow> [])
               (effects c))"

text \<open>
  The stop channels handed to the controllers that were started, and the invariant of
  the controller: it is well-formed; the channel of every start was made before; every
  start found no entry under its key; a controller started successfully whose channel
  is not closed has its channel stored under its key, and the channel of a failed start
  is closed; and no channel was handed to two starts.
\<close>

definition startChans :: "event list \<Rightarrow> chan list" where
  "startChans es =
     concat (map (\<lambda>e. case e of
                        EvStartSync _ _ ch _ _ \<Rightarrow> [ch]
                      | EvStartStatus _ ch _ _ \<Rightarrow> [ch]
                      | _ \<Rightarrow> [])
               es)"

definition invariant :: "Controller \<Rightarrow> bool" where
  "invariant c =
     (wellFormed c \<and>
      (\<forall>d r ch prev ok. EvStartSync d r ch prev ok \<in> set (effects c) \<longrightarrow>
         ch < nextChan c \<and> prev = None \<and>
         (if ok then ch \<notin> closedChans c \<longrightarrow> stopChannels c (Name d) = Some ch
          else ch \<in> closedChans c)) \<and>
      (\<forall>d ch prev ok. EvStartStatus d ch prev ok \<in> set (effects c) \<longrightarrow>
         ch < nextChan c \<and> prev = None \<and>
         (if ok then ch \<notin> closedChans c \<longrightarrow> stopChannels c (statusKeyOf d) = Some ch
          else ch \<in> closedChans c)) \<and>
      distinct (startChans (effects c)))"

subsection \<open>Concrete descriptors and controllers\<close>

definition clusterWide :: ControllerConfig where
  "clusterWide =
     \<lparr>KubeFedNamespace = ''kube-federation-system'', TargetNamespace = [],
      RawResourceStatusCollection = False\<rparr>"

definition namespacedPlane :: ControllerConfig where
  "namespacedPlane = clusterWide\<lparr>TargetNamespace := ''kube-federation-system''\<rparr>"

definition configmaps :: FederatedTypeConfig where
  "configmaps =
     \<lparr>Name = ''configmaps'', Namespace = ''kube-federation-system'', Generation = 1,
      DeletionTimestamp = None, Finalizers = [finalizer], PropagationEnabled = True,
      Namespaced = True, IsNamespace = False, StatusEnabled = False,
      FederatedType = ''FederatedConfigMap'', StatusType = None, ObservedGeneration = 1,
      PropagationController = None, StatusController = None\<rparr>"

definition namespaces :: FederatedTypeConfig where
  "namespaces = configmaps
     \<lparr>Name := ''namespaces'', Namespaced := False, IsNamespace := True,
      FederatedType := ''FederatedNamespace''\<rparr>"

definition clusterroles :: FederatedTypeConfig where
  "clusterroles = configmaps
     \<lparr>Name := ''clusterroles'', Namespaced := False,
      FederatedType := ''FederatedClusterRole''\<rparr>"

definition services :: FederatedTypeConfig where
  "services = configmaps
     \<lparr>Name := ''services'', StatusEnabled := True, FederatedType := ''FederatedService'',
      StatusType := Some ''FederatedServiceStatus''\<rparr>"

text \<open>A new controller whose store the informer has filled with the given objects.\<close>

definition controllerWith ::
  "ControllerConfig \<Rightarrow> FederatedTypeConfig list \<Rightarrow> Controller" where
  "controllerWith config objs =
     (newController config)\<lparr>store := map (\<lambda>tc. (keyOf tc, tc)) objs\<rparr>"

definition allCallsSucceed :: Env where
  "allCallsSucceed =
     \<lparr>getByKeyErr = (\<lambda>_. False), patchErr = False, updateStatusErr = False,
      startSyncErr = False, startStatusErr = False\<rparr>"

text \<open>A controller that holds the given stop channels, numbered from 0.\<close>

definition holding :: "(string \<times> chan) list \<Rightarrow> Controller \<Rightarrow> Controller" where
  "holding entries c = c\<lparr>stopChannels := map_of entries, nextChan := length entries\<rparr>"

definition servicesOff :: FederatedTypeConfig where
  "servicesOff = services\<lparr>PropagationEnabled := False, StatusEnabled := False\<rparr>"

definition servicesDeleted :: FederatedTypeConfig where
  "servicesDeleted = services\<lparr>DeletionTimestamp := Some 1\<rparr>"

definition clusterrolesDeleted :: FederatedTypeConfig where
  "clusterrolesDeleted = clusterroles\<lparr>DeletionTimestamp := Some 1\<rparr>"

definition namespacesNew :: FederatedTypeConfig where
  "namespacesNew = namespaces\<lparr>Finalizers := []\<rparr>"

definition namespacesDeleted :: FederatedTypeConfig where
  "namespacesDeleted = namespaces\<lparr>DeletionTimestamp := Some 1\<rparr>"

definition configmapsChanged :: FederatedTypeConfig where
  "configmapsChanged = configmaps\<lparr>Generation := 2\<rparr>"

definition servicesNoType :: FederatedTypeConfig where
  "servicesNoType = services\<lparr>StatusType := None\<rparr>"

section \<open>Basic facts\<close>

lemma andThen_simps [simp]:
  "andThen (c, None) f = f c"
  "andThen (c, Some out) f = (c, Some out)"
  by (simp_all add: andThen_def)

lemma andThen_go_on: "snd r = None \<Longrightarrow> andThen r f = f (fst r)"
  by (cases r) simp

lemma andThen_ended: "snd r = Some out \<Longrightarrow> andThen r f = r"
  by (cases r) simp

lemma newEffects_append: "effects c' = effects c @ es \<Longrightarrow> newEffects c c' = es"
  by (simp add: newEffects_def)

lemma statusKeyOf_neq [simp]: "statusKeyOf tc \<noteq> Name tc" "Name tc \<noteq> statusKeyOf tc"
  by (simp_all add: statusKeyOf_def)

lemma AddFinalizer_fields [simp]:
  "Name (AddFinalizer tc f) = Name tc"
  "Namespace (AddFinalizer tc f) = Namespace tc"
  "Generation (AddFinalizer tc f) = Generation tc"
  "DeletionTimestamp (AddFinalizer tc f) = DeletionTimestamp tc"
  "PropagationEnabled (AddFinalizer tc f) = PropagationEnabled tc"
  "Namespaced (AddFinalizer tc f) = Namespaced tc"
  "IsNamespace (AddFinalizer tc f) = IsNamespace tc"
  "StatusEnabled (AddFinalizer tc f) = StatusEnabled tc"
  "FederatedType (AddFinalizer tc f) = FederatedType tc"
  "StatusType (AddFinalizer tc f) = StatusType tc"
  "ObservedGeneration (AddFinalizer tc f) = ObservedGeneration tc"
  by (simp_all add: AddFinalizer_def)

lemma statusKeyOf_AddFinalizer [simp]: "statusKeyOf (AddFinalizer tc f) = statusKeyOf tc"
  by (simp add: statusKeyOf_def)

lemma enqueueNamespaced_eq:
  "enqueueNamespaced xs c =
     c\<lparr>effects := effects c @
        map (\<lambda>t. EvEnqueue (keyOf t)) (filter (\<lambda>t. Namespaced t \<and> \<not> IsNamespace t) xs)\<rparr>"
  by (induction xs arbitrary: c) (simp_all add: EnqueueObject_def)

lemma reconcileOnNamespaceFTCUpdate_eq:
  "reconcileOnNamespaceFTCUpdate c = c\<lparr>effects := effects c @ enqueueEvents c\<rparr>"
  by (simp add: reconcileOnNamespaceFTCUpdate_def enqueueNamespaced_eq enqueueEvents_def)

text \<open>What depends on the store and the configuration only.\<close>

lemma getFederatedNamespaceAPIResource_cong:
  "store c' = store c \<Longrightarrow> controllerConfig c' = controllerConfig c \<Longrightarrow>
   getFederatedNamespaceAPIResource env c' = getFederatedNamespaceAPIResource env c"
  by (simp add: getFederatedNamespaceAPIResource_def Let_def)

lemma store_only [simp]:
  "getFederatedNamespaceAPIResource env (c\<lparr>effects := e\<rparr>) = getFederatedNamespaceAPIResource env c"
  "getFederatedNamespaceAPIResource env (c\<lparr>stopChannels := m\<rparr>) = getFederatedNamespaceAPIResource env c"
  "getFederatedNamespaceAPIResource env (c\<lparr>closedChans := cl\<rparr>) = getFederatedNamespaceAPIResource env c"
  "getFederatedNamespaceAPIResource env (c\<lparr>nextChan := n\<rparr>) = getFederatedNamespaceAPIResource env c"
  by (simp_all add: getFederatedNamespaceAPIResource_def Let_def)

lemma store_only2 [simp]:
  "namespaceFTCExists env (c\<lparr>effects := e\<rparr>) = namespaceFTCExists env c"
  "namespaceFTCExists env (c\<lparr>stopChannels := m\<rparr>) = namespaceFTCExists env c"
  "namespaceFTCExists env (c\<lparr>closedChans := cl\<rparr>) = namespaceFTCExists env c"
  "namespaceFTCExists env (c\<lparr>nextChan := n\<rparr>) = namespaceFTCExists env c"
  "fedNamespaceResource env (c\<lparr>effects := e\<rparr>) tc = fedNamespaceResource env c tc"
  "fedNamespaceResource env (c\<lparr>stopChannels := m\<rparr>) tc = fedNamespaceResource env c tc"
  "fedNamespaceResource env (c\<lparr>closedChans := cl\<rparr>) tc = fedNamespaceResource env c tc"
  "fedNamespaceResource env (c\<lparr>nextChan := n\<rparr>) tc = fedNamespaceResource env c tc"
  "syncStartSucceeds env (c\<lparr>effects := e\<rparr>) tc = syncStartSucceeds env c tc"
  "syncStartSucceeds env (c\<lparr>stopChannels := m\<rparr>) tc = syncStartSucceeds env c tc"
  "syncStartSucceeds env (c\<lparr>closedChans := cl\<rparr>) tc = syncStartSucceeds env c tc"
  "syncStartSucceeds env (c\<lparr>nextChan := n\<rparr>) tc = syncStartSucceeds env c tc"
  by (simp_all add: namespaceFTCExists_def fedNamespaceResource_def syncStartSucceeds_def)

lemma store_only3 [simp]:
  "namespaceFTCExists env (afterFinalizer env' tc c) = namespaceFTCExists env c"
  "fedNamespaceResource env (afterFinalizer env' tc c) d = fedNamespaceResource env c d"
  "syncStartSucceeds env (afterFinalizer env' tc c) d = syncStartSucceeds env c d"
  "syncStartSucceeds env c (AddFinalizer tc f) = syncStartSucceeds env c tc"
  "fedNamespaceResource env c (AddFinalizer tc f) = fedNamespaceResource env c tc"
  by (simp_all add: afterFinalizer_def syncStartSucceeds_def fedNamespaceResource_def)

lemma afterFinalizer_fields [simp]:
  "stopChannels (afterFinalizer env tc c) = stopChannels c"
  "closedChans (afterFinalizer env tc c) = closedChans c"
  "nextChan (afterFinalizer env tc c) = nextChan c"
  "store (afterFinalizer env tc c) = store c"
  "controllerConfig (afterFinalizer env tc c) = controllerConfig c"
  by (simp_all add: afterFinalizer_def)

section \<open>The operations, case by case\<close>

lemma ensureFinalizer_eq:
  "ensureFinalizer env tc c =
     (c\<lparr>effects := effects c @ finalizerPatch env tc\<rparr>, AddFinalizer tc finalizer,
      \<not> ContainsFinalizer tc finalizer, finalizerEnsured env tc)"
  by (simp add: ensureFinalizer_def finalizerPatch_def finalizerEnsured_def AddFinalizer_def
        ContainsFinalizer_def Let_def)

lemma startSyncController_ok:
  "syncStartSucceeds env c tc \<Longrightarrow>
   startSyncController env tc c =
     (c\<lparr>stopChannels := (stopChannels c)(Name tc \<mapsto> nextChan c),
        nextChan := Suc (nextChan c),
        effects := effects c @
          [EvStartSync tc (fedNamespaceResource env c tc) (nextChan c)
             (stopChannels c (Name tc)) True]\<rparr>, True)"
  by (auto simp: startSyncController_def syncStartSucceeds_def namespaceFTCExists_def
        fedNamespaceResource_def makeChan_def Let_def split: sum.splits)

lemma startSyncController_no_namespaces:
  "Namespaced tc \<Longrightarrow> \<not> namespaceFTCExists env c \<Longrightarrow> startSyncController env tc c = (c, False)"
  by (auto simp: startSyncController_def namespaceFTCExists_def split: sum.splits)

lemma startSyncController_err:
  "startSyncErr env \<Longrightarrow> Namespaced tc \<longrightarrow> namespaceFTCExists env c \<Longrightarrow>
   startSyncController env tc c =
     (c\<lparr>closedChans := insert (nextChan c) (closedChans c),
        nextChan := Suc (nextChan c),
        effects := effects c @
          [EvStartSync tc (fedNamespaceResource env c tc) (nextChan c)
             (stopChannels c (Name tc)) False,
           EvClose (nextChan c)]\<rparr>, False)"
  by (auto simp: startSyncController_def namespaceFTCExists_def
        fedNamespaceResource_def makeChan_def Let_def split: sum.splits)

lemma startStatusController_ok:
  "\<not> startStatusErr env \<Longrightarrow>
   startStatusController env key tc c =
     (c\<lparr>stopChannels := (stopChannels c)(key \<mapsto> nextChan c),
        nextChan := Suc (nextChan c),
        effects := effects c @ [EvStartStatus tc (nextChan c) (stopChannels c key) True]\<rparr>,
      True)"
  by (simp add: startStatusController_def makeChan_def Let_def)

lemma startStatusController_err:
  "startStatusErr env \<Longrightarrow>
   startStatusController env key tc c =
     (c\<lparr>closedChans := insert (nextChan c) (closedChans c),
        nextChan := Suc (nextChan c),
        effects := effects c @
          [EvStartStatus tc (nextChan c) (stopChannels c key) False, EvClose (nextChan c)]\<rparr>,
      False)"
  by (simp add: startStatusController_def makeChan_def Let_def)

lemma stopController_open:
  "ch \<notin> closedChans c \<Longrightarrow>
   stopController key ch c =
     Some (c\<lparr>stopChannels := (stopChannels c)(key := None),
             closedChans := insert ch (closedChans c),
             effects := effects c @ [EvClose ch]\<rparr>)"
  by (simp add: stopController_def closeChan_def)

lemma stopController_closed: "ch \<in> closedChans c \<Longrightarrow> stopController key ch c = None"
  by (simp add: stopController_def closeChan_def)


section \<open>The steps, case by case\<close>

lemma syncStep_start_ok:
  "syncStartSucceeds env c tc \<Longrightarrow>
   syncStep env tc sc True stop c =
     (c\<lparr>stopChannels := (stopChannels c)(Name tc \<mapsto> nextChan c),
        nextChan := Suc (nextChan c),
        effects := effects c @
          [EvStartSync tc (fedNamespaceResource env c tc) (nextChan c)
             (stopChannels c (Name tc)) True]\<rparr>, None)"
  by (simp add: syncStep_def startSyncController_ok)

lemma syncStep_start_no_namespaces:
  "Namespaced tc \<Longrightarrow> \<not> namespaceFTCExists env c \<Longrightarrow>
   syncStep env tc sc True stop c = (c, Some (Returned StatusError))"
  by (simp add: syncStep_def startSyncController_no_namespaces)

lemma syncStep_start_err:
  "startSyncErr env \<Longrightarrow> Namespaced tc \<longrightarrow> namespaceFTCExists env c \<Longrightarrow>
   syncStep env tc sc True stop c =
     (c\<lparr>closedChans := insert (nextChan c) (closedChans c),
        nextChan := Suc (nextChan c),
        effects := effects c @
          [EvStartSync tc (fedNamespaceResource env c tc) (nextChan c)
             (stopChannels c (Name tc)) False,
           EvClose (nextChan c)]\<rparr>, Some (Returned StatusError))"
  by (simp add: syncStep_def startSyncController_err)

lemma syncStep_stop:
  "ch \<notin> closedChans c \<Longrightarrow>
   syncStep env tc (Some ch) False True c =
     (c\<lparr>stopChannels := (stopChannels c)(Name tc := None),
        closedChans := insert ch (closedChans c),
        effects := effects c @ [EvClose ch]\<rparr>, None)"
  by (simp add: syncStep_def stopController_open)

lemma syncStep_stop_panic:
  "ch \<in> closedChans c \<Longrightarrow> syncStep env tc (Some ch) False True c = (c, Some Panicked)"
  by (simp add: syncStep_def stopController_closed)

lemma syncStep_neither [simp]: "syncStep env tc sc False False c = (c, None)"
  by (simp add: syncStep_def)

lemma syncStep_stop_nothing [simp]: "syncStep env tc None False stop c = (c, None)"
  by (simp add: syncStep_def)

lemma statusStep_start_ok:
  "\<not> startStatusErr env \<Longrightarrow>
   statusStep env tc key sc True stop c =
     (c\<lparr>stopChannels := (stopChannels c)(key \<mapsto> nextChan c),
        nextChan := Suc (nextChan c),
        effects := effects c @ [EvStartStatus tc (nextChan c) (stopChannels c key) True]\<rparr>,
      None)"
  by (simp add: statusStep_def startStatusController_ok)

lemma statusStep_start_err:
  "startStatusErr env \<Longrightarrow>
   statusStep env tc key sc True stop c =
     (c\<lparr>closedChans := insert (nextChan c) (closedChans c),
        nextChan := Suc (nextChan c),
        effects := effects c @
          [EvStartStatus tc (nextChan c) (stopChannels c key) False, EvClose (nextChan c)]\<rparr>,
      Some (Returned StatusError))"
  by (simp add: statusStep_def startStatusController_err)

lemma statusStep_stop:
  "ch \<notin> closedChans c \<Longrightarrow>
   statusStep env tc key (Some ch) False True c =
     (c\<lparr>stopChannels := (stopChannels c)(key := None),
        closedChans := insert ch (closedChans c),
        effects := effects c @ [EvClose ch]\<rparr>, None)"
  by (simp add: statusStep_def stopController_open)

lemma statusStep_stop_panic:
  "ch \<in> closedChans c \<Longrightarrow> statusStep env tc key (Some ch) False True c = (c, Some Panicked)"
  by (simp add: statusStep_def stopController_closed)

lemma statusStep_neither [simp]: "statusStep env tc key sc False False c = (c, None)"
  by (simp add: statusStep_def)

lemma statusStep_stop_nothing [simp]: "statusStep env tc key None False stop c = (c, None)"
  by (simp add: statusStep_def)

lemma refreshStep_skip:
  "start \<or> stop \<or> ObservedGeneration tc = Generation tc \<Longrightarrow>
   refreshStep env tc start stop c = (c, None)"
  by (auto simp: refreshStep_def)

lemma refreshSyncController_none:
  "stopChannels c (Name tc) = None \<Longrightarrow>
   refreshSyncController env tc c = Some (startSyncController env tc c)"
  by (simp add: refreshSyncController_def getStopChannel_def)

lemma refreshSyncController_some:
  "stopChannels c (Name tc) = Some ch \<Longrightarrow> ch \<notin> closedChans c \<Longrightarrow>
   refreshSyncController env tc c =
     Some (startSyncController env tc
       (c\<lparr>stopChannels := (stopChannels c)(Name tc := None),
          closedChans := insert ch (closedChans c),
          effects := effects c @ [EvClose ch]\<rparr>))"
  by (simp add: refreshSyncController_def getStopChannel_def stopController_open)

lemma refreshSyncController_panic:
  "stopChannels c (Name tc) = Some ch \<Longrightarrow> ch \<in> closedChans c \<Longrightarrow>
   refreshSyncController env tc c = None"
  by (simp add: refreshSyncController_def getStopChannel_def stopController_closed)

section \<open>The paths of reconcile\<close>

lemma reconcile_special:
  "objCopyFromCache env c qn = Inr (Some tc) \<Longrightarrow> specialCase c tc \<Longrightarrow>
   reconcile env qn c = reconcileLimitedScope env tc c"
  by (simp add: reconcile_def specialCase_def)

lemma reconcile_deleted:
  "objCopyFromCache env c qn = Inr (Some tc) \<Longrightarrow> \<not> specialCase c tc \<Longrightarrow>
   DeletionTimestamp tc \<noteq> None \<Longrightarrow>
   reconcile env qn c =
     reconcileDeleted env tc (statusKeyOf tc) (stopChannels c (Name tc))
       (stopChannels c (statusKeyOf tc)) c"
  by (auto simp: reconcile_def specialCase_def statusKeyOf_def getStopChannel_def Let_def)

lemma reconcile_patch_fails:
  "objCopyFromCache env c qn = Inr (Some tc) \<Longrightarrow> \<not> specialCase c tc \<Longrightarrow>
   DeletionTimestamp tc = None \<Longrightarrow> \<not> finalizerEnsured env tc \<Longrightarrow>
   reconcile env qn c =
     (c\<lparr>effects := effects c @ finalizerPatch env tc\<rparr>, Returned StatusError)"
  by (auto simp: reconcile_def specialCase_def Let_def reconcileActive_def ensureFinalizer_eq)

lemma afterFinalizer_eq:
  "(if \<not> ContainsFinalizer tc finalizer \<and> IsNamespace tc
    then reconcileOnNamespaceFTCUpdate (c\<lparr>effects := effects c @ finalizerPatch env tc\<rparr>)
    else c\<lparr>effects := effects c @ finalizerPatch env tc\<rparr>) = afterFinalizer env tc c"
  by (simp add: afterFinalizer_def reconcileOnNamespaceFTCUpdate_eq enqueueEvents_def)

lemma reconcile_active:
  assumes "objCopyFromCache env c qn = Inr (Some tc)" and "\<not> specialCase c tc"
    and "DeletionTimestamp tc = None" and "finalizerEnsured env tc"
  shows "\<exists>a b. reconcile env qn c =
     (case activeSteps env tc c of
        (c5, Some out) \<Rightarrow> (c5, out)
      | (c5, None) \<Rightarrow> publishStatus env (AddFinalizer tc finalizer) a b c5)"
proof -
  have "reconcile env qn c =
      reconcileActive env tc (PropagationEnabled tc) (statusControllerEnabled c tc)
        (statusKeyOf tc) (stopChannels c (Name tc)) (stopChannels c (statusKeyOf tc)) c"
    using assms(1-3)
    by (auto simp: reconcile_def specialCase_def Let_def getStopChannel_def
          statusControllerEnabled_def statusKeyOf_def)
  then show ?thesis
    using assms(4)
    apply (simp add: reconcileActive_def ensureFinalizer_eq Let_def afterFinalizer_eq
          activeSteps_def syncStepOf_def statusStepOf_def refreshStepOf_def
          startsSync_def stopsSync_def startsStatus_def stopsStatus_def)
    apply (intro exI)
    apply (rule refl)
    done
qed

lemma publishStatus_eq:
  "publishStatus env tc a b c =
     (c\<lparr>effects := effects c @
         [EvUpdateStatus
            (tc\<lparr>ObservedGeneration := Generation tc,
                PropagationController :=
                  Some (if a then ControllerStatusRunning else ControllerStatusNotRunning),
                StatusController :=
                  Some (if b then ControllerStatusRunning else ControllerStatusNotRunning)\<rparr>)
            (\<not> updateStatusErr env)]\<rparr>,
      Returned (if updateStatusErr env then StatusError else StatusAllOK))"
  by (simp add: publishStatus_def UpdateStatus_def Let_def)

text \<open>The final state of the active path in terms of the steps.\<close>

lemma reconcile_active_fields:
  assumes "objCopyFromCache env c qn = Inr (Some tc)" and "\<not> specialCase c tc"
    and "DeletionTimestamp tc = None" and "finalizerEnsured env tc"
  shows "stopChannels (fst (reconcile env qn c)) = stopChannels (fst (activeSteps env tc c))"
    and "closedChans (fst (reconcile env qn c)) = closedChans (fst (activeSteps env tc c))"
    and "nextChan (fst (reconcile env qn c)) = nextChan (fst (activeSteps env tc c))"
    and "store (fst (reconcile env qn c)) = store (fst (activeSteps env tc c))"
    and "controllerConfig (fst (reconcile env qn c)) =
           controllerConfig (fst (activeSteps env tc c))"
    and "\<exists>es. effects (fst (reconcile env qn c)) = effects (fst (activeSteps env tc c)) @ es \<and>
           filter isSyncStart es = [] \<and> filter isStatusStart es = []"
    and "snd (reconcile env qn c) =
           (case snd (activeSteps env tc c) of
              Some out \<Rightarrow> out
            | None \<Rightarrow> Returned (if updateStatusErr env then StatusError else StatusAllOK))"
proof -
  obtain a b where eq: "reconcile env qn c =
     (case activeSteps env tc c of
        (c5, Some out) \<Rightarrow> (c5, out)
      | (c5, None) \<Rightarrow> publishStatus env (AddFinalizer tc finalizer) a b c5)"
    using reconcile_active [OF assms] by blast
  obtain c5 r where steps: "activeSteps env tc c = (c5, r)"
    by (cases "activeSteps env tc c")
  show "stopChannels (fst (reconcile env qn c)) = stopChannels (fst (activeSteps env tc c))"
    and "closedChans (fst (reconcile env qn c)) = closedChans (fst (activeSteps env tc c))"
    and "nextChan (fst (reconcile env qn c)) = nextChan (fst (activeSteps env tc c))"
    and "store (fst (reconcile env qn c)) = store (fst (activeSteps env tc c))"
    and "controllerConfig (fst (reconcile env qn c)) =
           controllerConfig (fst (activeSteps env tc c))"
    and "\<exists>es. effects (fst (reconcile env qn c)) = effects (fst (activeSteps env tc c)) @ es \<and>
           filter isSyncStart es = [] \<and> filter isStatusStart es = []"
    and "snd (reconcile env qn c) =
           (case snd (activeSteps env tc c) of
              Some out \<Rightarrow> out
            | None \<Rightarrow> Returned (if updateStatusErr env then StatusError else StatusAllOK))"
    by (cases r; simp add: eq steps publishStatus_eq isSyncStart_def isStatusStart_def)+
qed


section \<open>What a step leaves alone\<close>

lemma filter_starts_pro [simp]:
  "filter isSyncStart (finalizerPatch env tc) = []"
  "filter isStatusStart (finalizerPatch env tc) = []"
  "filter isSyncStart (enqueueEvents c) = []"
  "filter isStatusStart (enqueueEvents c) = []"
  by (simp_all add: finalizerPatch_def enqueueEvents_def isSyncStart_def isStatusStart_def
        filter_empty_conv)

lemma effects_afterFinalizer:
  "\<exists>es. effects (afterFinalizer env tc c) = effects c @ es \<and> filter isSyncStart es = [] \<and>
     filter isStatusStart es = []"
  by (simp add: afterFinalizer_def)

lemma syncStep_frame:
  "k \<noteq> Name tc \<Longrightarrow> stopChannels (fst (syncStep env tc sc a b c)) k = stopChannels c k"
  "closedChans c \<subseteq> closedChans (fst (syncStep env tc sc a b c))"
  "\<exists>es. effects (fst (syncStep env tc sc a b c)) = effects c @ es \<and>
     filter isStatusStart es = []"
  by (auto simp: syncStep_def startSyncController_def stopController_def closeChan_def
        makeChan_def Let_def isStatusStart_def split: option.splits sum.splits if_splits)

lemma statusStep_frame:
  "k \<noteq> key \<Longrightarrow> stopChannels (fst (statusStep env tc key sc a b c)) k = stopChannels c k"
  "closedChans c \<subseteq> closedChans (fst (statusStep env tc key sc a b c))"
  "\<exists>es. effects (fst (statusStep env tc key sc a b c)) = effects c @ es \<and>
     filter isSyncStart es = []"
  by (auto simp: statusStep_def startStatusController_def stopController_def closeChan_def
        makeChan_def Let_def isSyncStart_def split: option.splits sum.splits if_splits)

lemma refreshStep_frame:
  "k \<noteq> Name tc \<Longrightarrow> stopChannels (fst (refreshStep env tc a b c)) k = stopChannels c k"
  "closedChans c \<subseteq> closedChans (fst (refreshStep env tc a b c))"
  "\<exists>es. effects (fst (refreshStep env tc a b c)) = effects c @ es \<and>
     filter isStatusStart es = []"
  by (auto simp: refreshStep_def refreshSyncController_def getStopChannel_def
        startSyncController_def stopController_def closeChan_def
        makeChan_def Let_def isStatusStart_def split: option.splits sum.splits if_splits)


section \<open>Well-formed controllers\<close>

lemma wellFormed_open: "wellFormed c \<Longrightarrow> stopChannels c k = Some ch \<Longrightarrow> ch \<notin> closedChans c"
  by (auto simp: wellFormed_def)

lemma wellFormed_made: "wellFormed c \<Longrightarrow> stopChannels c k = Some ch \<Longrightarrow> ch < nextChan c"
  by (auto simp: wellFormed_def)

lemma wellFormed_one_key:
  "wellFormed c \<Longrightarrow> stopChannels c k = Some ch \<Longrightarrow> stopChannels c k' = Some ch \<Longrightarrow> k' = k"
  by (auto simp: wellFormed_def)

lemma wellFormed_closed_made: "wellFormed c \<Longrightarrow> ch \<in> closedChans c \<Longrightarrow> ch < nextChan c"
  by (auto simp: wellFormed_def)

lemma andThen_return [simp]: "andThen r (\<lambda>c. (c, None)) = r"
  by (cases r) (auto simp: andThen_def split: option.splits)

lemma fst_andThen: "snd r = None \<Longrightarrow> fst (andThen r f) = fst (f (fst r))"
  by (cases r) simp

lemma refreshStepOf_skip:
  "startsSync c tc \<or> stopsSync env c tc \<or> ObservedGeneration tc = Generation tc \<Longrightarrow>
   refreshStepOf env tc c = (\<lambda>c. (c, None))"
  by (auto simp: refreshStepOf_def refreshStep_def fun_eq_iff)

lemma syncStepOf_start_ok:
  "startsSync c tc \<Longrightarrow> syncStartSucceeds env c tc \<Longrightarrow>
   syncStepOf env tc c =
     ((afterFinalizer env tc c)
        \<lparr>stopChannels := (stopChannels c)(Name tc \<mapsto> nextChan c),
         nextChan := Suc (nextChan c),
         effects := effects (afterFinalizer env tc c) @
           [EvStartSync (AddFinalizer tc finalizer) (fedNamespaceResource env c tc)
              (nextChan c) None True]\<rparr>, None)"
  by (simp add: syncStepOf_def syncStep_start_ok) (simp add: startsSync_def)

lemma syncStepOf_stop:
  "stopsSync env c tc \<Longrightarrow> stopChannels c (Name tc) = Some ch \<Longrightarrow> ch \<notin> closedChans c \<Longrightarrow>
   syncStepOf env tc c =
     ((afterFinalizer env tc c)
        \<lparr>stopChannels := (stopChannels c)(Name tc := None),
         closedChans := insert ch (closedChans c),
         effects := effects (afterFinalizer env tc c) @ [EvClose ch]\<rparr>, None)"
  by (simp add: syncStepOf_def syncStep_stop startsSync_def)

lemma syncStepOf_neither:
  "\<not> startsSync c tc \<Longrightarrow> \<not> stopsSync env c tc \<Longrightarrow>
   syncStepOf env tc c = (afterFinalizer env tc c, None)"
  by (simp add: syncStepOf_def)

lemma syncStepOf_goes_on:
  assumes "wellFormed c" and "\<not> syncStepFails env c tc"
  shows "snd (syncStepOf env tc c) = None"
proof (cases "startsSync c tc")
  case True
  with assms(2) show ?thesis
    by (simp add: syncStepFails_def syncStepOf_start_ok)
next
  case False
  show ?thesis
  proof (cases "stopsSync env c tc")
    case True
    then obtain ch where "stopChannels c (Name tc) = Some ch"
      by (auto simp: stopsSync_def)
    with True assms(1) show ?thesis
      by (simp add: syncStepOf_stop wellFormed_open)
  next
    case False
    with \<open>\<not> startsSync c tc\<close> show ?thesis
      by (simp add: syncStepOf_neither)
  qed
qed

lemma syncStepOf_frame:
  "k \<noteq> Name tc \<Longrightarrow> stopChannels (fst (syncStepOf env tc c)) k = stopChannels c k"
  "closedChans c \<subseteq> closedChans (fst (syncStepOf env tc c))"
  "\<exists>es. effects (fst (syncStepOf env tc c)) = effects c @ es \<and> filter isStatusStart es = []"
proof -
  show "k \<noteq> Name tc \<Longrightarrow> stopChannels (fst (syncStepOf env tc c)) k = stopChannels c k"
    by (simp add: syncStepOf_def syncStep_frame(1))
  show "closedChans c \<subseteq> closedChans (fst (syncStepOf env tc c))"
    using syncStep_frame(2) [of "afterFinalizer env tc c"] by (simp add: syncStepOf_def)
  obtain es1 where "effects (afterFinalizer env tc c) = effects c @ es1"
    "filter isStatusStart es1 = []"
    using effects_afterFinalizer by blast
  moreover obtain es2 where
    "effects (fst (syncStepOf env tc c)) = effects (afterFinalizer env tc c) @ es2"
    "filter isStatusStart es2 = []"
    unfolding syncStepOf_def using syncStep_frame(3) by blast
  ultimately show
    "\<exists>es. effects (fst (syncStepOf env tc c)) = effects c @ es \<and> filter isStatusStart es = []"
    by simp
qed


lemma syncStep_closed_only:
  "x \<in> closedChans (fst (syncStep env tc sc a b c)) \<Longrightarrow>
   x \<in> closedChans c \<or> sc = Some x \<or> x = nextChan c"
  by (auto simp: syncStep_def startSyncController_def stopController_def closeChan_def
        makeChan_def Let_def split: option.splits sum.splits if_splits)

lemma statusStep_closed_only:
  "x \<in> closedChans (fst (statusStep env tc key sc a b c)) \<Longrightarrow>
   x \<in> closedChans c \<or> sc = Some x \<or> x = nextChan c"
  by (auto simp: statusStep_def startStatusController_def stopController_def closeChan_def
        makeChan_def Let_def split: option.splits sum.splits if_splits)

lemma syncStepOf_closed_only:
  "x \<in> closedChans (fst (syncStepOf env tc c)) \<Longrightarrow>
   x \<in> closedChans c \<or> stopChannels c (Name tc) = Some x \<or> x = nextChan c"
  using syncStep_closed_only [of x env _ _ _ _ "afterFinalizer env tc c"]
  by (auto simp: syncStepOf_def)

lemma syncStepOf_keeps_open:
  assumes "wellFormed c" and "stopChannels c k = Some ch" and "k \<noteq> Name tc"
  shows "ch \<notin> closedChans (fst (syncStepOf env tc c))"
proof
  assume "ch \<in> closedChans (fst (syncStepOf env tc c))"
  then consider "ch \<in> closedChans c" | "stopChannels c (Name tc) = Some ch" | "ch = nextChan c"
    using syncStepOf_closed_only by blast
  then show False
  proof cases
    case 1
    with assms show False by (simp add: wellFormed_open)
  next
    case 2
    with assms show False using wellFormed_one_key by blast
  next
    case 3
    with assms show False using wellFormed_made by fastforce
  qed
qed



lemma enqueueEvents_store [simp]:
  "enqueueEvents (c\<lparr>effects := e\<rparr>) = enqueueEvents c"
  "enqueueEvents (c\<lparr>stopChannels := m\<rparr>) = enqueueEvents c"
  "enqueueEvents (c\<lparr>closedChans := cl\<rparr>) = enqueueEvents c"
  "enqueueEvents (c\<lparr>nextChan := n\<rparr>) = enqueueEvents c"
  by (simp_all add: enqueueEvents_def)

lemma removeFinalizer_eq:
  "removeFinalizer env tc c =
     (c\<lparr>effects := effects c @ deletionPatch env tc\<rparr>,
      \<not> (ContainsFinalizer tc finalizer \<and> patchErr env))"
  by (simp add: removeFinalizer_def deletionPatch_def Let_def)

lemma reconcileDeleted_eq:
  assumes "wellFormed c"
  shows "reconcileDeleted env tc (statusKeyOf tc) (stopChannels c (Name tc))
           (stopChannels c (statusKeyOf tc)) c =
     (c\<lparr>stopChannels := (stopChannels c)(Name tc := None, statusKeyOf tc := None),
        closedChans := closedChans c \<union> set_option (stopChannels c (Name tc)) \<union>
          set_option (stopChannels c (statusKeyOf tc)),
        effects := effects c @ deletionCloses c tc @
          (if IsNamespace tc then enqueueEvents c else []) @ deletionPatch env tc\<rparr>,
      Returned (if ContainsFinalizer tc finalizer \<and> patchErr env then StatusError
                else StatusAllOK))"
proof -
  have name_none: "(stopChannels c)(Name tc := None) = stopChannels c"
    if "stopChannels c (Name tc) = None"
    using that by (auto simp: fun_eq_iff)
  have status_none: "m(statusKeyOf tc := None) = m" if "m (statusKeyOf tc) = None"
    for m :: "string \<rightharpoonup> chan"
    using that by (auto simp: fun_eq_iff)
  show ?thesis
  proof (cases "stopChannels c (Name tc)")
    case None
    note n = None
    show ?thesis
    proof (cases "stopChannels c (statusKeyOf tc)")
      case None
      with n show ?thesis
        by (simp add: reconcileDeleted_def removeFinalizer_eq reconcileOnNamespaceFTCUpdate_eq
              deletionCloses_def name_none status_none Let_def)
    next
      case (Some ch2)
      then have "ch2 \<notin> closedChans c" using assms by (simp add: wellFormed_open)
      with n Some show ?thesis
        by (simp add: reconcileDeleted_def removeFinalizer_eq reconcileOnNamespaceFTCUpdate_eq
              deletionCloses_def name_none stopController_open Let_def)
    qed
  next
    case (Some ch)
    note s = Some
    then have o1: "ch \<notin> closedChans c" using assms by (simp add: wellFormed_open)
    show ?thesis
    proof (cases "stopChannels c (statusKeyOf tc)")
      case None
      with s o1 show ?thesis
        by (simp add: reconcileDeleted_def removeFinalizer_eq reconcileOnNamespaceFTCUpdate_eq
              deletionCloses_def stopController_open status_none Let_def)
    next
      case (Some ch2)
      then have o2: "ch2 \<notin> closedChans c" using assms by (simp add: wellFormed_open)
      have "ch2 \<noteq> ch"
        using wellFormed_one_key [OF assms s, of "statusKeyOf tc"] Some by auto
      with s Some o1 o2 show ?thesis
        by (simp add: reconcileDeleted_def removeFinalizer_eq reconcileOnNamespaceFTCUpdate_eq
              deletionCloses_def stopController_open insert_commute Let_def)
    qed
  qed
qed

section \<open>More on what the steps leave alone\<close>

lemma syncStep_store:
  "store (fst (syncStep env tc sc a b c)) = store c"
  "controllerConfig (fst (syncStep env tc sc a b c)) = controllerConfig c"
  "nextChan c \<le> nextChan (fst (syncStep env tc sc a b c))"
  by (auto simp: syncStep_def startSyncController_def stopController_def closeChan_def
        makeChan_def Let_def split: option.splits sum.splits if_splits)

lemma statusStep_store:
  "store (fst (statusStep env tc key sc a b c)) = store c"
  "controllerConfig (fst (statusStep env tc key sc a b c)) = controllerConfig c"
  "nextChan c \<le> nextChan (fst (statusStep env tc key sc a b c))"
  by (auto simp: statusStep_def startStatusController_def stopController_def closeChan_def
        makeChan_def Let_def split: option.splits sum.splits if_splits)

lemma refreshStep_store:
  "store (fst (refreshStep env tc a b c)) = store c"
  "controllerConfig (fst (refreshStep env tc a b c)) = controllerConfig c"
  "nextChan c \<le> nextChan (fst (refreshStep env tc a b c))"
  by (auto simp: refreshStep_def refreshSyncController_def getStopChannel_def
        startSyncController_def stopController_def closeChan_def
        makeChan_def Let_def split: option.splits sum.splits if_splits)

lemma syncStartSucceeds_cong:
  "store c' = store c \<Longrightarrow> controllerConfig c' = controllerConfig c \<Longrightarrow>
   syncStartSucceeds env c' tc = syncStartSucceeds env c tc"
  "store c' = store c \<Longrightarrow> controllerConfig c' = controllerConfig c \<Longrightarrow>
   fedNamespaceResource env c' tc = fedNamespaceResource env c tc"
  "store c' = store c \<Longrightarrow> controllerConfig c' = controllerConfig c \<Longrightarrow>
   namespaceFTCExists env c' = namespaceFTCExists env c"
  by (simp_all add: syncStartSucceeds_def fedNamespaceResource_def namespaceFTCExists_def
        getFederatedNamespaceAPIResource_def Let_def)

lemma andThen_effects:
  assumes "\<exists>es. effects (fst r) = effects c0 @ es"
    and "\<And>c1. \<exists>es. effects (fst (f c1)) = effects c1 @ es"
  shows "\<exists>es. effects (fst (andThen r f)) = effects c0 @ es"
proof (cases r)
  case (Pair c1 out)
  show ?thesis
  proof (cases out)
    case None
    obtain es1 where "effects c1 = effects c0 @ es1" using assms(1) Pair by auto
    moreover obtain es2 where "effects (fst (f c1)) = effects c1 @ es2"
      using assms(2) by blast
    ultimately show ?thesis using Pair None by simp
  next
    case (Some a)
    with Pair assms(1) show ?thesis by simp
  qed
qed

lemma activeSteps_effects:
  "\<exists>es. effects (fst (activeSteps env tc c)) = effects (afterFinalizer env tc c) @ es"
  unfolding activeSteps_def
proof (intro andThen_effects)
  show "\<exists>es. effects (fst (syncStepOf env tc c)) = effects (afterFinalizer env tc c) @ es"
    unfolding syncStepOf_def using syncStep_frame(3) by blast
  show "\<exists>es. effects (fst (statusStepOf env tc c c1)) = effects c1 @ es" for c1
    unfolding statusStepOf_def using statusStep_frame(3) by blast
  show "\<exists>es. effects (fst (refreshStepOf env tc c c1)) = effects c1 @ es" for c1
    unfolding refreshStepOf_def using refreshStep_frame(3) by blast
qed

section \<open>The status step and the refresh\<close>

lemma statusStepOf_goes_on:
  assumes "\<not> statusStepFails env c tc"
    and "\<forall>ch. stopChannels c (statusKeyOf tc) = Some ch \<longrightarrow> ch \<notin> closedChans c3"
  shows "snd (statusStepOf env tc c c3) = None"
proof (cases "startsStatus c tc")
  case True
  with assms(1) show ?thesis
    by (simp add: statusStepFails_def statusStepOf_def statusStep_start_ok)
next
  case False
  show ?thesis
  proof (cases "stopsStatus c tc")
    case True
    then obtain ch where "stopChannels c (statusKeyOf tc) = Some ch"
      by (auto simp: stopsStatus_def)
    with True False assms(2) show ?thesis
      by (simp add: statusStepOf_def statusStep_stop)
  next
    case False
    with \<open>\<not> startsStatus c tc\<close> show ?thesis
      by (simp add: statusStepOf_def)
  qed
qed

lemma startSyncController_fails:
  "\<not> syncStartSucceeds env c tc \<Longrightarrow>
   snd (startSyncController env tc c) = False \<and>
   stopChannels (fst (startSyncController env tc c)) = stopChannels c \<and>
   closedChans c \<subseteq> closedChans (fst (startSyncController env tc c))"
  by (cases "Namespaced tc \<and> \<not> namespaceFTCExists env c")
     (auto simp: syncStartSucceeds_def startSyncController_no_namespaces
        startSyncController_err)

lemma refreshStep_run_ok:
  assumes "ObservedGeneration tc \<noteq> Generation tc"
    and "\<forall>ch. stopChannels c (Name tc) = Some ch \<longrightarrow> ch \<notin> closedChans c"
    and "syncStartSucceeds env c tc"
  shows "refreshStep env tc False False c =
     (c\<lparr>stopChannels := (stopChannels c)(Name tc \<mapsto> nextChan c),
        closedChans := closedChans c \<union> set_option (stopChannels c (Name tc)),
        nextChan := Suc (nextChan c),
        effects := effects c @
          (case stopChannels c (Name tc) of None \<Rightarrow> [] | Some ch \<Rightarrow> [EvClose ch]) @
          [EvStartSync tc (fedNamespaceResource env c tc) (nextChan c) None True]\<rparr>, None)"
proof (cases "stopChannels c (Name tc)")
  case None
  with assms show ?thesis
    by (simp add: refreshStep_def refreshSyncController_none startSyncController_ok)
next
  case (Some ch)
  with assms show ?thesis
    by (simp add: refreshStep_def refreshSyncController_some startSyncController_ok)
qed

lemma refreshStep_run_fails:
  assumes "ObservedGeneration tc \<noteq> Generation tc"
    and "\<forall>ch. stopChannels c (Name tc) = Some ch \<longrightarrow> ch \<notin> closedChans c"
    and "\<not> syncStartSucceeds env c tc"
  shows "snd (refreshStep env tc False False c) = Some (Returned StatusError) \<and>
     stopChannels (fst (refreshStep env tc False False c)) = (stopChannels c)(Name tc := None) \<and>
     closedChans c \<union> set_option (stopChannels c (Name tc))
       \<subseteq> closedChans (fst (refreshStep env tc False False c))"
proof (cases "stopChannels c (Name tc)")
  case None
  then have "(stopChannels c)(Name tc := None) = stopChannels c"
    by (auto simp: fun_eq_iff)
  with None assms show ?thesis
    using startSyncController_fails [OF assms(3)]
    by (simp add: refreshStep_def refreshSyncController_none split_beta)
next
  case (Some ch)
  let ?c1 = "c\<lparr>stopChannels := (stopChannels c)(Name tc := None),
          closedChans := insert ch (closedChans c),
          effects := effects c @ [EvClose ch]\<rparr>"
  have "\<not> syncStartSucceeds env ?c1 tc" using assms(3) by simp
  from startSyncController_fails [OF this] Some assms show ?thesis
    by (simp add: refreshStep_def refreshSyncController_some split_beta)
qed

section \<open>Where controllers are started\<close>

lemma andThen_effects_filter:
  assumes "\<exists>es. effects (fst r) = effects c0 @ es \<and> filter p es = []"
    and "\<And>c1. \<exists>es. effects (fst (f c1)) = effects c1 @ es \<and> filter p es = []"
  shows "\<exists>es. effects (fst (andThen r f)) = effects c0 @ es \<and> filter p es = []"
proof (cases r)
  case (Pair c1 out)
  show ?thesis
  proof (cases out)
    case None
    obtain es1 where "effects c1 = effects c0 @ es1" "filter p es1 = []"
      using assms(1) Pair by auto
    moreover obtain es2 where "effects (fst (f c1)) = effects c1 @ es2" "filter p es2 = []"
      using assms(2) by blast
    ultimately show ?thesis using Pair None by simp
  next
    case (Some a)
    with Pair assms(1) show ?thesis by simp
  qed
qed

lemma statusStep_no_start:
  "\<exists>es. effects (fst (statusStep env tc key sc False b c)) = effects c @ es \<and>
     filter isStatusStart es = []"
  by (auto simp: statusStep_def stopController_def closeChan_def isStatusStart_def
        split: option.splits)

lemma activeSteps_no_status_start:
  assumes "\<not> startsStatus c tc"
  shows "\<exists>es. effects (fst (activeSteps env tc c)) = effects c @ es \<and>
     filter isStatusStart es = []"
  unfolding activeSteps_def
proof (intro andThen_effects_filter)
  show "\<exists>es. effects (fst (syncStepOf env tc c)) = effects c @ es \<and>
      filter isStatusStart es = []"
    by (rule syncStepOf_frame(3))
  show "\<exists>es. effects (fst (statusStepOf env tc c c1)) = effects c1 @ es \<and>
      filter isStatusStart es = []" for c1
    using assms statusStep_no_start by (simp add: statusStepOf_def)
  show "\<exists>es. effects (fst (refreshStepOf env tc c c1)) = effects c1 @ es \<and>
      filter isStatusStart es = []" for c1
    unfolding refreshStepOf_def by (rule refreshStep_frame(3))
qed

lemma reconcileDeleted_no_starts:
  "\<exists>es. effects (fst (reconcileDeleted env tc key sc ssc c)) = effects c @ es \<and>
     filter isStatusStart es = [] \<and> filter isSyncStart es = []"
  by (auto simp: reconcileDeleted_def stopController_def closeChan_def removeFinalizer_eq
        reconcileOnNamespaceFTCUpdate_eq deletionPatch_def isStatusStart_def isSyncStart_def
        Let_def split: option.splits)

lemma reconcileLimitedScope_no_starts:
  "\<exists>es. effects (fst (reconcileLimitedScope env tc c)) = effects c @ es \<and>
     filter isStatusStart es = [] \<and> filter isSyncStart es = []"
  by (auto simp: reconcileLimitedScope_def getStopChannel_def makeChan_def UpdateStatus_def
        isStatusStart_def isSyncStart_def Let_def split: option.splits)

lemma reconcile_status_start_only_if_enabled:
  assumes "objCopyFromCache env c qn = Inr (Some tc)"
    and "\<not> startsStatus c tc \<or> specialCase c tc \<or> DeletionTimestamp tc \<noteq> None"
  shows "filter isStatusStart (newEffects c (fst (reconcile env qn c))) = []"
proof -
  have "\<exists>es. effects (fst (reconcile env qn c)) = effects c @ es \<and>
      filter isStatusStart es = []"
  proof (cases "specialCase c tc")
    case True
    then show ?thesis
      using reconcileLimitedScope_no_starts [of env tc c]
      by (auto simp: reconcile_special [OF assms(1)])
  next
    case False
    note ns = False
    show ?thesis
    proof (cases "DeletionTimestamp tc")
      case (Some t)
      then have "DeletionTimestamp tc \<noteq> None" by simp
      then show ?thesis
        using reconcileDeleted_no_starts
          [of env tc "statusKeyOf tc" "stopChannels c (Name tc)"
             "stopChannels c (statusKeyOf tc)" c]
        by (auto simp: reconcile_deleted [OF assms(1) ns])
    next
      case None
      then have nostart: "\<not> startsStatus c tc" using assms(2) ns by simp
      show ?thesis
      proof (cases "finalizerEnsured env tc")
        case False
        then show ?thesis
          by (simp add: reconcile_patch_fails [OF assms(1) ns None])
      next
        case True
        obtain esP where
          "effects (fst (reconcile env qn c)) = effects (fst (activeSteps env tc c)) @ esP"
          "filter isStatusStart esP = []"
          using reconcile_active_fields(6) [OF assms(1) ns None True] by blast
        moreover obtain es where "effects (fst (activeSteps env tc c)) = effects c @ es"
          "filter isStatusStart es = []"
          using activeSteps_no_status_start [OF nostart] by blast
        ultimately show ?thesis by simp
      qed
    qed
  qed
  then show ?thesis by (auto simp: newEffects_def)
qed

lemma reconcile_active_stops_status:
  assumes "objCopyFromCache env c qn = Inr (Some tc)"
    and "DeletionTimestamp tc = None"
    and "\<not> specialCase c tc"
    and "finalizerEnsured env tc"
    and "wellFormed c"
    and "\<not> syncStepFails env c tc"
    and "\<not> statusControllerEnabled c tc"
    and "stopChannels c (statusKeyOf tc) = Some ch"
  shows "stopChannels (fst (reconcile env qn c)) (statusKeyOf tc) = None \<and>
     ch \<in> closedChans (fst (reconcile env qn c))"
proof -
  let ?c' = "fst (reconcile env qn c)"
  let ?c3 = "fst (syncStepOf env tc c)"
  note flds = reconcile_active_fields [OF assms(1) assms(3) assms(2) assms(4)]
  have goes: "snd (syncStepOf env tc c) = None"
    using assms(5) assms(6) by (rule syncStepOf_goes_on)
  have stops: "stopsStatus c tc" "\<not> startsStatus c tc"
    using assms(7) assms(8) by (simp_all add: stopsStatus_def startsStatus_def)
  have open3: "ch \<notin> closedChans ?c3"
    using assms(5) assms(8) by (rule syncStepOf_keeps_open) simp
  let ?c4 = "?c3\<lparr>stopChannels := (stopChannels ?c3)(statusKeyOf tc := None),
      closedChans := insert ch (closedChans ?c3),
      effects := effects ?c3 @ [EvClose ch]\<rparr>"
  have st: "statusStepOf env tc c ?c3 = (?c4, None)"
    by (simp add: statusStepOf_def stops assms(8) statusStep_stop [OF open3])
  have steps: "activeSteps env tc c = refreshStepOf env tc c ?c4"
    by (simp add: activeSteps_def andThen_go_on [OF goes] st)
  have "stopChannels ?c' (statusKeyOf tc) = None"
    by (simp add: flds(1) steps refreshStepOf_def refreshStep_frame(1))
  moreover have "ch \<in> closedChans ?c'"
    using refreshStep_frame(2) [of ?c4] by (auto simp: flds(2) steps refreshStepOf_def)
  ultimately show ?thesis by simp
qed

section \<open>New entries of the map\<close>

lemma onlyStartedRegistered_refl: "onlyStartedRegistered c c"
  by (simp add: onlyStartedRegistered_def)

lemma onlyStartedRegistered_trans:
  assumes "onlyStartedRegistered c c1" and "onlyStartedRegistered c1 c2"
  shows "onlyStartedRegistered c c2"
proof -
  obtain es1 where es1: "effects c1 = effects c @ es1"
    "\<forall>k ch. stopChannels c1 k = Some ch \<longrightarrow>
       stopChannels c k = Some ch \<or> (\<exists>e \<in> set es1. startedWith e ch)"
    using assms(1) unfolding onlyStartedRegistered_def by blast
  obtain es2 where es2: "effects c2 = effects c1 @ es2"
    "\<forall>k ch. stopChannels c2 k = Some ch \<longrightarrow>
       stopChannels c1 k = Some ch \<or> (\<exists>e \<in> set es2. startedWith e ch)"
    using assms(2) unfolding onlyStartedRegistered_def by blast
  have "effects c2 = effects c @ (es1 @ es2)" using es1(1) es2(1) by simp
  moreover have "\<forall>k ch. stopChannels c2 k = Some ch \<longrightarrow>
      stopChannels c k = Some ch \<or> (\<exists>e \<in> set (es1 @ es2). startedWith e ch)"
    using es1(2) es2(2) by (metis Un_iff set_append)
  ultimately show ?thesis unfolding onlyStartedRegistered_def by blast
qed

lemma onlyStartedRegistered_effects:
  "stopChannels c' = stopChannels c \<Longrightarrow> effects c' = effects c @ es \<Longrightarrow>
   onlyStartedRegistered c c'"
  by (auto simp: onlyStartedRegistered_def)

lemma onlyStartedRegistered_andThen:
  assumes "onlyStartedRegistered c0 (fst r)"
    and "\<And>c1. onlyStartedRegistered c1 (fst (f c1))"
  shows "onlyStartedRegistered c0 (fst (andThen r f))"
proof (cases r)
  case (Pair c1 out)
  show ?thesis
  proof (cases out)
    case None
    with Pair assms show ?thesis
      using onlyStartedRegistered_trans [of c0 c1 "fst (f c1)"] by simp
  next
    case (Some a)
    with Pair assms(1) show ?thesis by simp
  qed
qed

lemma syncStep_onlyStarted: "onlyStartedRegistered c (fst (syncStep env tc sc a b c))"
  by (auto simp: onlyStartedRegistered_def syncStep_def startSyncController_def
        stopController_def closeChan_def makeChan_def Let_def startedWith_def
        split: option.splits sum.splits if_splits)

lemma statusStep_onlyStarted:
  "onlyStartedRegistered c (fst (statusStep env tc key sc a b c))"
  by (auto simp: onlyStartedRegistered_def statusStep_def startStatusController_def
        stopController_def closeChan_def makeChan_def Let_def startedWith_def
        split: option.splits sum.splits if_splits)

lemma refreshStep_onlyStarted: "onlyStartedRegistered c (fst (refreshStep env tc a b c))"
  by (auto simp: onlyStartedRegistered_def refreshStep_def refreshSyncController_def
        getStopChannel_def startSyncController_def
        stopController_def closeChan_def makeChan_def Let_def startedWith_def
        split: option.splits sum.splits if_splits)

lemma reconcileDeleted_onlyStarted:
  "onlyStartedRegistered c (fst (reconcileDeleted env tc key sc ssc c))"
  by (auto simp: onlyStartedRegistered_def reconcileDeleted_def stopController_def
        closeChan_def removeFinalizer_eq reconcileOnNamespaceFTCUpdate_eq Let_def
        split: option.splits if_splits)

lemma activeSteps_onlyStarted: "onlyStartedRegistered c (fst (activeSteps env tc c))"
proof -
  have "onlyStartedRegistered c (afterFinalizer env tc c)"
    by (rule onlyStartedRegistered_effects [where es = "finalizerPatch env tc @
          (if \<not> ContainsFinalizer tc finalizer \<and> IsNamespace tc then enqueueEvents c else [])"])
       (simp_all add: afterFinalizer_def)
  moreover have "onlyStartedRegistered (afterFinalizer env tc c) (fst (activeSteps env tc c))"
    unfolding activeSteps_def
    by (intro onlyStartedRegistered_andThen)
       (simp_all add: syncStepOf_def statusStepOf_def refreshStepOf_def syncStep_onlyStarted
          statusStep_onlyStarted refreshStep_onlyStarted)
  ultimately show ?thesis by (rule onlyStartedRegistered_trans)
qed

lemma reconcile_onlyStarted:
  assumes "objCopyFromCache env c qn = Inr (Some tc)" and "\<not> specialCase c tc"
  shows "onlyStartedRegistered c (fst (reconcile env qn c))"
proof (cases "DeletionTimestamp tc")
  case (Some t)
  then have "DeletionTimestamp tc \<noteq> None" by simp
  then show ?thesis
    by (simp add: reconcile_deleted [OF assms] reconcileDeleted_onlyStarted)
next
  case None
  show ?thesis
  proof (cases "finalizerEnsured env tc")
    case False
    show ?thesis
      by (rule onlyStartedRegistered_effects [where es = "finalizerPatch env tc"])
         (simp_all add: reconcile_patch_fails [OF assms None False])
  next
    case True
    note flds = reconcile_active_fields [OF assms None True]
    obtain esP where
      "effects (fst (reconcile env qn c)) = effects (fst (activeSteps env tc c)) @ esP"
      using flds(6) by blast
    with flds(1) have
      "onlyStartedRegistered (fst (activeSteps env tc c)) (fst (reconcile env qn c))"
      by (rule onlyStartedRegistered_effects)
    with activeSteps_onlyStarted show ?thesis by (rule onlyStartedRegistered_trans)
  qed
qed

section \<open>The invariant\<close>

lemma startChans_append [simp]: "startChans (es @ es') = startChans es @ startChans es'"
  by (simp add: startChans_def)

lemma startChans_simps [simp]:
  "startChans [] = []"
  "startChans (EvClose ch # es) = startChans es"
  "startChans (EvEnqueue q # es) = startChans es"
  "startChans (EvPatch d ok # es) = startChans es"
  "startChans (EvUpdateStatus d ok # es) = startChans es"
  "startChans (EvStartSync d r ch prev ok # es) = ch # startChans es"
  "startChans (EvStartStatus d ch prev ok # es) = ch # startChans es"
  by (simp_all add: startChans_def)

lemma startChans_mem:
  "ch \<in> set (startChans es) \<longleftrightarrow>
     (\<exists>d r prev ok. EvStartSync d r ch prev ok \<in> set es) \<or>
     (\<exists>d prev ok. EvStartStatus d ch prev ok \<in> set es)"
proof (induction es)
  case Nil
  show ?case by simp
next
  case (Cons e es)
  then show ?case by (cases e) auto
qed

lemma invariant_wellFormed: "invariant c \<Longrightarrow> wellFormed c"
  by (simp add: invariant_def)

lemma invariant_sync:
  assumes "invariant c" and "EvStartSync d r ch prev ok \<in> set (effects c)"
  shows "ch < nextChan c" and "prev = None"
    and "ok \<Longrightarrow> ch \<notin> closedChans c \<Longrightarrow> stopChannels c (Name d) = Some ch"
    and "\<not> ok \<Longrightarrow> ch \<in> closedChans c"
  using assms unfolding invariant_def by (metis (full_types))+

lemma invariant_status:
  assumes "invariant c" and "EvStartStatus d ch prev ok \<in> set (effects c)"
  shows "ch < nextChan c" and "prev = None"
    and "ok \<Longrightarrow> ch \<notin> closedChans c \<Longrightarrow> stopChannels c (statusKeyOf d) = Some ch"
    and "\<not> ok \<Longrightarrow> ch \<in> closedChans c"
  using assms unfolding invariant_def by (metis (full_types))+

lemma invariant_distinct: "invariant c \<Longrightarrow> distinct (startChans (effects c))"
  by (simp add: invariant_def)

lemma startChans_made:
  "invariant c \<Longrightarrow> ch \<in> set (startChans (effects c)) \<Longrightarrow> ch < nextChan c"
  using invariant_sync(1) invariant_status(1) by (auto simp: startChans_mem)

lemma invariantI:
  assumes "wellFormed c"
    and "\<And>d r ch prev ok. EvStartSync d r ch prev ok \<in> set (effects c) \<Longrightarrow>
           ch < nextChan c \<and> prev = None \<and>
           (ok \<longrightarrow> ch \<notin> closedChans c \<longrightarrow> stopChannels c (Name d) = Some ch) \<and>
           (\<not> ok \<longrightarrow> ch \<in> closedChans c)"
    and "\<And>d ch prev ok. EvStartStatus d ch prev ok \<in> set (effects c) \<Longrightarrow>
           ch < nextChan c \<and> prev = None \<and>
           (ok \<longrightarrow> ch \<notin> closedChans c \<longrightarrow> stopChannels c (statusKeyOf d) = Some ch) \<and>
           (\<not> ok \<longrightarrow> ch \<in> closedChans c)"
    and "distinct (startChans (effects c))"
  shows "invariant c"
  unfolding invariant_def using assms by auto

lemma startChans_no_starts:
  "filter isSyncStart es = [] \<Longrightarrow> filter isStatusStart es = [] \<Longrightarrow> startChans es = []"
  by (induction es)
     (auto simp: isSyncStart_def isStatusStart_def split: event.splits if_splits)

lemma no_starts_mem:
  "filter isSyncStart es = [] \<Longrightarrow> EvStartSync d r ch prev ok \<notin> set es"
  "filter isStatusStart es = [] \<Longrightarrow> EvStartStatus d ch prev ok \<notin> set es"
  by (auto simp: filter_empty_conv isSyncStart_def isStatusStart_def)

lemma invariant_new: "invariant (newController config)"
  by (simp add: invariant_def wellFormed_def newController_def)

lemma invariant_store: "invariant c \<Longrightarrow> invariant (c\<lparr>store := objs\<rparr>)"
  by (simp add: invariant_def wellFormed_def)

lemma invariant_effects:
  assumes "invariant c" and "filter isSyncStart es = []" and "filter isStatusStart es = []"
  shows "invariant (c\<lparr>effects := effects c @ es\<rparr>)"
proof (rule invariantI)
  show "wellFormed (c\<lparr>effects := effects c @ es\<rparr>)"
    using invariant_wellFormed [OF assms(1)] by (simp add: wellFormed_def)
  show "distinct (startChans (effects (c\<lparr>effects := effects c @ es\<rparr>)))"
    using invariant_distinct [OF assms(1)] assms(2,3) by (simp add: startChans_no_starts)
next
  fix d r ch prev ok
  assume "EvStartSync d r ch prev ok \<in> set (effects (c\<lparr>effects := effects c @ es\<rparr>))"
  then have "EvStartSync d r ch prev ok \<in> set (effects c)"
    using no_starts_mem(1) [OF assms(2)] by auto
  from invariant_sync [OF assms(1) this]
  show "ch < nextChan (c\<lparr>effects := effects c @ es\<rparr>) \<and> prev = None \<and>
      (ok \<longrightarrow> ch \<notin> closedChans (c\<lparr>effects := effects c @ es\<rparr>) \<longrightarrow>
         stopChannels (c\<lparr>effects := effects c @ es\<rparr>) (Name d) = Some ch) \<and>
      (\<not> ok \<longrightarrow> ch \<in> closedChans (c\<lparr>effects := effects c @ es\<rparr>))"
    by simp
next
  fix d ch prev ok
  assume "EvStartStatus d ch prev ok \<in> set (effects (c\<lparr>effects := effects c @ es\<rparr>))"
  then have "EvStartStatus d ch prev ok \<in> set (effects c)"
    using no_starts_mem(2) [OF assms(3)] by auto
  from invariant_status [OF assms(1) this]
  show "ch < nextChan (c\<lparr>effects := effects c @ es\<rparr>) \<and> prev = None \<and>
      (ok \<longrightarrow> ch \<notin> closedChans (c\<lparr>effects := effects c @ es\<rparr>) \<longrightarrow>
         stopChannels (c\<lparr>effects := effects c @ es\<rparr>) (statusKeyOf d) = Some ch) \<and>
      (\<not> ok \<longrightarrow> ch \<in> closedChans (c\<lparr>effects := effects c @ es\<rparr>))"
    by simp
qed

lemma invariant_stop:
  assumes "invariant c" and "stopChannels c key = Some ch"
  shows "invariant (c\<lparr>stopChannels := (stopChannels c)(key := None),
           closedChans := insert ch (closedChans c),
           effects := effects c @ [EvClose ch]\<rparr>)"
    (is "invariant ?c'")
proof (rule invariantI)
  have wf: "wellFormed c" using assms(1) by (rule invariant_wellFormed)
  have other: "stopChannels c k \<noteq> Some ch" if "k \<noteq> key" for k
    using wellFormed_one_key [OF wf assms(2), of k] that by auto
  show "wellFormed ?c'"
    using wf wellFormed_made [OF wf assms(2)] other
    unfolding wellFormed_def by (auto split: if_splits)
  show "distinct (startChans (effects ?c'))"
    using invariant_distinct [OF assms(1)] by simp
  {
    fix d r ch' prev ok
    assume "EvStartSync d r ch' prev ok \<in> set (effects ?c')"
    then have ev: "EvStartSync d r ch' prev ok \<in> set (effects c)" by simp
    note i = invariant_sync [OF assms(1) ev]
    have "stopChannels ?c' (Name d) = Some ch'" if "ok" "ch' \<notin> closedChans ?c'"
    proof -
      from that have "stopChannels c (Name d) = Some ch'" "ch' \<noteq> ch" using i(3) by auto
      with assms(2) have "Name d \<noteq> key" by auto
      with \<open>stopChannels c (Name d) = Some ch'\<close> show ?thesis by simp
    qed
    then show "ch' < nextChan ?c' \<and> prev = None \<and>
        (ok \<longrightarrow> ch' \<notin> closedChans ?c' \<longrightarrow> stopChannels ?c' (Name d) = Some ch') \<and>
        (\<not> ok \<longrightarrow> ch' \<in> closedChans ?c')"
      using i(1,2,4) by auto
  }
  {
    fix d ch' prev ok
    assume "EvStartStatus d ch' prev ok \<in> set (effects ?c')"
    then have ev: "EvStartStatus d ch' prev ok \<in> set (effects c)" by simp
    note i = invariant_status [OF assms(1) ev]
    have "stopChannels ?c' (statusKeyOf d) = Some ch'" if "ok" "ch' \<notin> closedChans ?c'"
    proof -
      from that have "stopChannels c (statusKeyOf d) = Some ch'" "ch' \<noteq> ch"
        using i(3) by auto
      with assms(2) have "statusKeyOf d \<noteq> key" by auto
      with \<open>stopChannels c (statusKeyOf d) = Some ch'\<close> show ?thesis by simp
    qed
    then show "ch' < nextChan ?c' \<and> prev = None \<and>
        (ok \<longrightarrow> ch' \<notin> closedChans ?c' \<longrightarrow> stopChannels ?c' (statusKeyOf d) = Some ch') \<and>
        (\<not> ok \<longrightarrow> ch' \<in> closedChans ?c')"
      using i(1,2,4) by auto
  }
qed


lemma invariant_holder:
  assumes "invariant c" and "stopChannels c key = None"
  shows "invariant (c\<lparr>stopChannels := (stopChannels c)(key \<mapsto> nextChan c),
           nextChan := Suc (nextChan c)\<rparr>)"
    (is "invariant ?c'")
proof (rule invariantI)
  have wf: "wellFormed c" using assms(1) by (rule invariant_wellFormed)
  have fresh: "nextChan c \<notin> closedChans c"
    using wf by (auto simp: wellFormed_def)
  have unused: "stopChannels c k \<noteq> Some (nextChan c)" for k
    using wellFormed_made [OF wf, of k "nextChan c"] by auto
  show "wellFormed ?c'"
    using wf fresh unused assms(2)
    unfolding wellFormed_def by (auto simp: less_Suc_eq split: if_splits)
  show "distinct (startChans (effects ?c'))"
    using invariant_distinct [OF assms(1)] by simp
  {
    fix d r ch prev ok
    assume "EvStartSync d r ch prev ok \<in> set (effects ?c')"
    then have ev: "EvStartSync d r ch prev ok \<in> set (effects c)" by simp
    note i = invariant_sync [OF assms(1) ev]
    have "stopChannels ?c' (Name d) = Some ch" if "ok" "ch \<notin> closedChans ?c'"
    proof -
      from that have "stopChannels c (Name d) = Some ch" using i(3) by auto
      with assms(2) have "Name d \<noteq> key" by auto
      with \<open>stopChannels c (Name d) = Some ch\<close> show ?thesis by simp
    qed
    then show "ch < nextChan ?c' \<and> prev = None \<and>
        (ok \<longrightarrow> ch \<notin> closedChans ?c' \<longrightarrow> stopChannels ?c' (Name d) = Some ch) \<and>
        (\<not> ok \<longrightarrow> ch \<in> closedChans ?c')"
      using i(1,2,4) by auto
  }
  {
    fix d ch prev ok
    assume "EvStartStatus d ch prev ok \<in> set (effects ?c')"
    then have ev: "EvStartStatus d ch prev ok \<in> set (effects c)" by simp
    note i = invariant_status [OF assms(1) ev]
    have "stopChannels ?c' (statusKeyOf d) = Some ch" if "ok" "ch \<notin> closedChans ?c'"
    proof -
      from that have "stopChannels c (statusKeyOf d) = Some ch" using i(3) by auto
      with assms(2) have "statusKeyOf d \<noteq> key" by auto
      with \<open>stopChannels c (statusKeyOf d) = Some ch\<close> show ?thesis by simp
    qed
    then show "ch < nextChan ?c' \<and> prev = None \<and>
        (ok \<longrightarrow> ch \<notin> closedChans ?c' \<longrightarrow> stopChannels ?c' (statusKeyOf d) = Some ch) \<and>
        (\<not> ok \<longrightarrow> ch \<in> closedChans ?c')"
      using i(1,2,4) by auto
  }
qed

lemma invariant_burn:
  assumes "invariant c"
  shows "invariant (c\<lparr>closedChans := insert (nextChan c) (closedChans c),
           nextChan := Suc (nextChan c)\<rparr>)"
    (is "invariant ?c'")
proof (rule invariantI)
  have wf: "wellFormed c" using assms(1) by (rule invariant_wellFormed)
  have unused: "stopChannels c k \<noteq> Some (nextChan c)" for k
    using wellFormed_made [OF wf, of k "nextChan c"] by auto
  show "wellFormed ?c'"
    using wf unused unfolding wellFormed_def by (auto simp: less_Suc_eq)
  show "distinct (startChans (effects ?c'))"
    using invariant_distinct [OF assms(1)] by simp
  {
    fix d r ch prev ok
    assume "EvStartSync d r ch prev ok \<in> set (effects ?c')"
    then have ev: "EvStartSync d r ch prev ok \<in> set (effects c)" by simp
    from invariant_sync [OF assms(1) ev]
    show "ch < nextChan ?c' \<and> prev = None \<and>
        (ok \<longrightarrow> ch \<notin> closedChans ?c' \<longrightarrow> stopChannels ?c' (Name d) = Some ch) \<and>
        (\<not> ok \<longrightarrow> ch \<in> closedChans ?c')"
      by auto
  }
  {
    fix d ch prev ok
    assume "EvStartStatus d ch prev ok \<in> set (effects ?c')"
    then have ev: "EvStartStatus d ch prev ok \<in> set (effects c)" by simp
    from invariant_status [OF assms(1) ev]
    show "ch < nextChan ?c' \<and> prev = None \<and>
        (ok \<longrightarrow> ch \<notin> closedChans ?c' \<longrightarrow> stopChannels ?c' (statusKeyOf d) = Some ch) \<and>
        (\<not> ok \<longrightarrow> ch \<in> closedChans ?c')"
      by auto
  }
qed

lemma invariant_add_sync:
  assumes "invariant c" and "ch < nextChan c" and "ch \<notin> set (startChans (effects c))"
    and "ok \<Longrightarrow> stopChannels c (Name d) = Some ch" and "\<not> ok \<Longrightarrow> ch \<in> closedChans c"
  shows "invariant (c\<lparr>effects := effects c @ [EvStartSync d r ch None ok]\<rparr>)"
    (is "invariant ?c'")
proof (rule invariantI)
  show "wellFormed ?c'"
    using invariant_wellFormed [OF assms(1)] by (simp add: wellFormed_def)
  show "distinct (startChans (effects ?c'))"
    using invariant_distinct [OF assms(1)] assms(3) by simp
  {
    fix d' r' ch' prev ok'
    assume "EvStartSync d' r' ch' prev ok' \<in> set (effects ?c')"
    then consider "EvStartSync d' r' ch' prev ok' \<in> set (effects c)"
      | "d' = d" "r' = r" "ch' = ch" "prev = None" "ok' = ok"
      by auto
    then show "ch' < nextChan ?c' \<and> prev = None \<and>
        (ok' \<longrightarrow> ch' \<notin> closedChans ?c' \<longrightarrow> stopChannels ?c' (Name d') = Some ch') \<and>
        (\<not> ok' \<longrightarrow> ch' \<in> closedChans ?c')"
    proof cases
      case 1
      from invariant_sync [OF assms(1) this] show ?thesis by auto
    next
      case 2
      with assms(2,4,5) show ?thesis by auto
    qed
  }
  {
    fix d' ch' prev ok'
    assume "EvStartStatus d' ch' prev ok' \<in> set (effects ?c')"
    then have "EvStartStatus d' ch' prev ok' \<in> set (effects c)" by simp
    from invariant_status [OF assms(1) this]
    show "ch' < nextChan ?c' \<and> prev = None \<and>
        (ok' \<longrightarrow> ch' \<notin> closedChans ?c' \<longrightarrow> stopChannels ?c' (statusKeyOf d') = Some ch') \<and>
        (\<not> ok' \<longrightarrow> ch' \<in> closedChans ?c')"
      by auto
  }
qed

lemma invariant_add_status:
  assumes "invariant c" and "ch < nextChan c" and "ch \<notin> set (startChans (effects c))"
    and "ok \<Longrightarrow> stopChannels c (statusKeyOf d) = Some ch" and "\<not> ok \<Longrightarrow> ch \<in> closedChans c"
  shows "invariant (c\<lparr>effects := effects c @ [EvStartStatus d ch None ok]\<rparr>)"
    (is "invariant ?c'")
proof (rule invariantI)
  show "wellFormed ?c'"
    using invariant_wellFormed [OF assms(1)] by (simp add: wellFormed_def)
  show "distinct (startChans (effects ?c'))"
    using invariant_distinct [OF assms(1)] assms(3) by simp
  {
    fix d' r' ch' prev ok'
    assume "EvStartSync d' r' ch' prev ok' \<in> set (effects ?c')"
    then have "EvStartSync d' r' ch' prev ok' \<in> set (effects c)" by simp
    from invariant_sync [OF assms(1) this]
    show "ch' < nextChan ?c' \<and> prev = None \<and>
        (ok' \<longrightarrow> ch' \<notin> closedChans ?c' \<longrightarrow> stopChannels ?c' (Name d') = Some ch') \<and>
        (\<not> ok' \<longrightarrow> ch' \<in> closedChans ?c')"
      by auto
  }
  {
    fix d' ch' prev ok'
    assume "EvStartStatus d' ch' prev ok' \<in> set (effects ?c')"
    then consider "EvStartStatus d' ch' prev ok' \<in> set (effects c)"
      | "d' = d" "ch' = ch" "prev = None" "ok' = ok"
      by auto
    then show "ch' < nextChan ?c' \<and> prev = None \<and>
        (ok' \<longrightarrow> ch' \<notin> closedChans ?c' \<longrightarrow> stopChannels ?c' (statusKeyOf d') = Some ch') \<and>
        (\<not> ok' \<longrightarrow> ch' \<in> closedChans ?c')"
    proof cases
      case 1
      from invariant_status [OF assms(1) this] show ?thesis by auto
    next
      case 2
      with assms(2,4,5) show ?thesis by auto
    qed
  }
qed

section \<open>The operations keep the invariant\<close>

lemma startSyncController_invariant:
  assumes "invariant c" and "stopChannels c (Name tc) = None"
  shows "invariant (fst (startSyncController env tc c))"
proof -
  have unused: "nextChan c \<notin> set (startChans (effects c))"
    using startChans_made [OF assms(1), of "nextChan c"] by auto
  consider (missing) "Namespaced tc \<and> \<not> namespaceFTCExists env c"
    | (err) "startSyncErr env" "Namespaced tc \<longrightarrow> namespaceFTCExists env c"
    | (ok) "syncStartSucceeds env c tc"
    by (auto simp: syncStartSucceeds_def)
  then show ?thesis
  proof cases
    case missing
    with assms(1) show ?thesis by (simp add: startSyncController_no_namespaces)
  next
    case err
    let ?b = "c\<lparr>closedChans := insert (nextChan c) (closedChans c),
                nextChan := Suc (nextChan c)\<rparr>"
    have "invariant ?b" using assms(1) by (rule invariant_burn)
    then have "invariant (?b\<lparr>effects := effects ?b @
        [EvStartSync tc (fedNamespaceResource env c tc) (nextChan c) None False]\<rparr>)"
      by (rule invariant_add_sync) (simp_all add: unused)
    then have "invariant (?b\<lparr>effects := effects ?b @
        [EvStartSync tc (fedNamespaceResource env c tc) (nextChan c) None False]\<rparr>
        \<lparr>effects := effects ?b @
        [EvStartSync tc (fedNamespaceResource env c tc) (nextChan c) None False] @
        [EvClose (nextChan c)]\<rparr>)"
      using invariant_effects [where es = "[EvClose (nextChan c)]"]
      by (fastforce simp: isSyncStart_def isStatusStart_def)
    then show ?thesis
      using err assms(2) by (simp add: startSyncController_err)
  next
    case ok
    let ?h = "c\<lparr>stopChannels := (stopChannels c)(Name tc \<mapsto> nextChan c),
                nextChan := Suc (nextChan c)\<rparr>"
    have "invariant ?h" using assms by (rule invariant_holder)
    then have "invariant (?h\<lparr>effects := effects ?h @
        [EvStartSync tc (fedNamespaceResource env c tc) (nextChan c) None True]\<rparr>)"
      by (rule invariant_add_sync) (simp_all add: unused)
    then show ?thesis
      using ok assms(2) by (simp add: startSyncController_ok)
  qed
qed

lemma startStatusController_invariant:
  assumes "invariant c" and "stopChannels c (statusKeyOf tc) = None"
  shows "invariant (fst (startStatusController env (statusKeyOf tc) tc c))"
proof -
  have unused: "nextChan c \<notin> set (startChans (effects c))"
    using startChans_made [OF assms(1), of "nextChan c"] by auto
  show ?thesis
  proof (cases "startStatusErr env")
    case True
    let ?b = "c\<lparr>closedChans := insert (nextChan c) (closedChans c),
                nextChan := Suc (nextChan c)\<rparr>"
    have "invariant ?b" using assms(1) by (rule invariant_burn)
    then have "invariant (?b\<lparr>effects := effects ?b @
        [EvStartStatus tc (nextChan c) None False]\<rparr>)"
      by (rule invariant_add_status) (simp_all add: unused)
    then have "invariant (?b\<lparr>effects := effects ?b @
        [EvStartStatus tc (nextChan c) None False]\<rparr>
        \<lparr>effects := effects ?b @ [EvStartStatus tc (nextChan c) None False] @
        [EvClose (nextChan c)]\<rparr>)"
      using invariant_effects [where es = "[EvClose (nextChan c)]"]
      by (fastforce simp: isSyncStart_def isStatusStart_def)
    then show ?thesis
      using True assms(2) by (simp add: startStatusController_err)
  next
    case False
    let ?h = "c\<lparr>stopChannels := (stopChannels c)(statusKeyOf tc \<mapsto> nextChan c),
                nextChan := Suc (nextChan c)\<rparr>"
    have "invariant ?h" using assms by (rule invariant_holder)
    then have "invariant (?h\<lparr>effects := effects ?h @
        [EvStartStatus tc (nextChan c) None True]\<rparr>)"
      by (rule invariant_add_status) (simp_all add: unused)
    then show ?thesis
      using False assms(2) by (simp add: startStatusController_ok)
  qed
qed

lemma stopController_invariant:
  assumes "invariant c" and "stopChannels c key = Some ch"
  shows "\<exists>c'. stopController key ch c = Some c' \<and> invariant c' \<and>
     stopChannels c' = (stopChannels c)(key := None)"
proof -
  have "ch \<notin> closedChans c"
    using invariant_wellFormed [OF assms(1)] assms(2) by (rule wellFormed_open)
  then show ?thesis
    using invariant_stop [OF assms] by (simp add: stopController_open)
qed

lemma syncStep_invariant:
  assumes "invariant c" and "sc = stopChannels c (Name tc)" and "a \<Longrightarrow> sc = None"
  shows "invariant (fst (syncStep env tc sc a b c))"
proof (cases a)
  case True
  with assms have "stopChannels c (Name tc) = None" by simp
  from startSyncController_invariant [OF assms(1) this] True show ?thesis
    by (simp add: syncStep_def split_beta)
next
  case False
  show ?thesis
  proof (cases sc)
    case None
    with False assms(1) show ?thesis by (simp add: syncStep_def)
  next
    case (Some ch)
    then have "stopChannels c (Name tc) = Some ch" using assms(2) by simp
    from stopController_invariant [OF assms(1) this] Some False assms(1) show ?thesis
      by (auto simp: syncStep_def)
  qed
qed

lemma statusStep_invariant:
  assumes "invariant c" and "sc = stopChannels c (statusKeyOf tc)" and "a \<Longrightarrow> sc = None"
  shows "invariant (fst (statusStep env tc (statusKeyOf tc) sc a b c))"
proof (cases a)
  case True
  with assms have "stopChannels c (statusKeyOf tc) = None" by simp
  from startStatusController_invariant [OF assms(1) this] True show ?thesis
    by (simp add: statusStep_def split_beta)
next
  case False
  show ?thesis
  proof (cases sc)
    case None
    with False assms(1) show ?thesis by (simp add: statusStep_def)
  next
    case (Some ch)
    then have "stopChannels c (statusKeyOf tc) = Some ch" using assms(2) by simp
    from stopController_invariant [OF assms(1) this] Some False assms(1) show ?thesis
      by (auto simp: statusStep_def)
  qed
qed

lemma refreshStep_invariant:
  assumes "invariant c"
  shows "invariant (fst (refreshStep env tc a b c))"
proof (cases "\<not> a \<and> \<not> b \<and> ObservedGeneration tc \<noteq> Generation tc")
  case False
  with assms show ?thesis by (auto simp: refreshStep_def)
next
  case True
  show ?thesis
  proof (cases "stopChannels c (Name tc)")
    case None
    from startSyncController_invariant [OF assms None] True None show ?thesis
      by (simp add: refreshStep_def refreshSyncController_none split_beta)
  next
    case (Some ch)
    obtain c1 where c1: "stopController (Name tc) ch c = Some c1" "invariant c1"
      "stopChannels c1 (Name tc) = None"
      using stopController_invariant [OF assms Some] by auto
    from startSyncController_invariant [OF c1(2) c1(3)] True Some c1(1) show ?thesis
      by (simp add: refreshStep_def refreshSyncController_def getStopChannel_def split_beta)
  qed
qed

lemma invariant_andThen:
  assumes "invariant (fst r)" and "\<And>c1. invariant c1 \<Longrightarrow> Q c1 \<Longrightarrow> invariant (fst (f c1))"
    and "Q (fst r)"
  shows "invariant (fst (andThen r f))"
  using assms by (cases r; cases "snd r") auto

lemma activeSteps_invariant:
  assumes "invariant c"
  shows "invariant (fst (activeSteps env tc c))"
proof -
  have i2: "invariant (afterFinalizer env tc c)"
    unfolding afterFinalizer_def using assms by (rule invariant_effects) simp_all
  have i3: "invariant (fst (syncStepOf env tc c))"
    unfolding syncStepOf_def using i2
    by (rule syncStep_invariant) (simp_all add: startsSync_def)
  have i4: "invariant (fst (andThen (syncStepOf env tc c) (statusStepOf env tc c)))"
    using i3
  proof (rule invariant_andThen
      [where Q = "\<lambda>c1. stopChannels c1 (statusKeyOf tc) = stopChannels c (statusKeyOf tc)"])
    fix c1
    assume "invariant c1"
      and "stopChannels c1 (statusKeyOf tc) = stopChannels c (statusKeyOf tc)"
    then show "invariant (fst (statusStepOf env tc c c1))"
      using statusStep_invariant [of c1 "stopChannels c (statusKeyOf tc)"
          "AddFinalizer tc finalizer" "startsStatus c tc" env "stopsStatus c tc"]
      by (simp add: statusStepOf_def startsStatus_def)
  next
    show "stopChannels (fst (syncStepOf env tc c)) (statusKeyOf tc)
        = stopChannels c (statusKeyOf tc)"
      by (simp add: syncStepOf_frame(1))
  qed
  show ?thesis
    unfolding activeSteps_def using i4
    by (rule invariant_andThen [where Q = "\<lambda>_. True"])
       (simp_all add: refreshStepOf_def refreshStep_invariant)
qed

section \<open>Every state the controller reaches satisfies the invariant\<close>

lemma invariant_cong:
  "stopChannels c' = stopChannels c \<Longrightarrow> closedChans c' = closedChans c \<Longrightarrow>
   nextChan c' = nextChan c \<Longrightarrow> effects c' = effects c \<Longrightarrow> invariant c' = invariant c"
  by (simp add: invariant_def wellFormed_def)

lemma reconcileLimitedScope_invariant:
  assumes "invariant c"
  shows "invariant (fst (reconcileLimitedScope env tc c))"
proof -
  let ?ev = "[EvUpdateStatus (tc\<lparr>ObservedGeneration := Generation tc,
          PropagationController := Some ControllerStatusNotRunning,
          StatusController := Some ControllerStatusNotRunning\<rparr>) (\<not> updateStatusErr env)]"
  have ev: "filter isSyncStart ?ev = []" "filter isStatusStart ?ev = []"
    by (simp_all add: isSyncStart_def isStatusStart_def)
  show ?thesis
  proof (cases "stopChannels c (Name tc)")
    case None
    let ?h = "c\<lparr>stopChannels := (stopChannels c)(Name tc \<mapsto> nextChan c),
                nextChan := Suc (nextChan c)\<rparr>"
    have "invariant ?h" using assms None by (rule invariant_holder)
    then have "invariant (?h\<lparr>effects := effects ?h @ ?ev\<rparr>)"
      using ev by (rule invariant_effects)
    moreover have "invariant (fst (reconcileLimitedScope env tc c))
        = invariant (?h\<lparr>effects := effects ?h @ ?ev\<rparr>)"
      using None
      by (intro invariant_cong)
         (simp_all add: reconcileLimitedScope_def getStopChannel_def makeChan_def
            UpdateStatus_def Let_def)
    ultimately show ?thesis by simp
  next
    case (Some ch)
    have "invariant (c\<lparr>effects := effects c @ ?ev\<rparr>)"
      using assms ev by (rule invariant_effects)
    moreover have "invariant (fst (reconcileLimitedScope env tc c))
        = invariant (c\<lparr>effects := effects c @ ?ev\<rparr>)"
      using Some
      by (intro invariant_cong)
         (simp_all add: reconcileLimitedScope_def getStopChannel_def UpdateStatus_def Let_def)
    ultimately show ?thesis by simp
  qed
qed

lemma reconcileDeleted_invariant:
  assumes "invariant c"
  shows "invariant (fst (reconcileDeleted env tc (statusKeyOf tc) (stopChannels c (Name tc))
           (stopChannels c (statusKeyOf tc)) c))"
proof -
  have wf: "wellFormed c" using assms by (rule invariant_wellFormed)
  let ?c' = "fst (reconcileDeleted env tc (statusKeyOf tc) (stopChannels c (Name tc))
           (stopChannels c (statusKeyOf tc)) c)"
  let ?c1 = "c\<lparr>stopChannels := (stopChannels c)(Name tc := None),
        closedChans := closedChans c \<union> set_option (stopChannels c (Name tc)),
        effects := effects c @
          (case stopChannels c (Name tc) of None \<Rightarrow> [] | Some ch \<Rightarrow> [EvClose ch])\<rparr>"
  have i1: "invariant ?c1"
  proof (cases "stopChannels c (Name tc)")
    case None
    then have "(stopChannels c)(Name tc := None) = stopChannels c" by (auto simp: fun_eq_iff)
    with None assms show ?thesis by simp
  next
    case (Some ch)
    with invariant_stop [OF assms Some] show ?thesis by simp
  qed
  let ?c2 = "?c1\<lparr>stopChannels := (stopChannels ?c1)(statusKeyOf tc := None),
        closedChans := closedChans ?c1 \<union> set_option (stopChannels c (statusKeyOf tc)),
        effects := effects ?c1 @
          (case stopChannels c (statusKeyOf tc) of None \<Rightarrow> [] | Some ch \<Rightarrow> [EvClose ch])\<rparr>"
  have i2: "invariant ?c2"
  proof (cases "stopChannels c (statusKeyOf tc)")
    case None
    then have "(stopChannels ?c1)(statusKeyOf tc := None) = stopChannels ?c1"
      by (auto simp: fun_eq_iff)
    with None i1 show ?thesis by simp
  next
    case (Some ch)
    then have "stopChannels ?c1 (statusKeyOf tc) = Some ch" by simp
    from invariant_stop [OF i1 this] Some show ?thesis by simp
  qed
  have "invariant (?c2\<lparr>effects := effects ?c2 @
      ((if IsNamespace tc then enqueueEvents c else []) @ deletionPatch env tc)\<rparr>)"
    using i2 by (rule invariant_effects) (simp_all add: deletionPatch_def isSyncStart_def
        isStatusStart_def)
  moreover have "invariant ?c' = invariant (?c2\<lparr>effects := effects ?c2 @
      ((if IsNamespace tc then enqueueEvents c else []) @ deletionPatch env tc)\<rparr>)"
    by (rule invariant_cong)
       (auto simp: reconcileDeleted_eq [OF wf] deletionCloses_def split: option.splits)
  ultimately show ?thesis by simp
qed

lemma reconcile_invariant:
  assumes "invariant c"
  shows "invariant (fst (reconcile env qn c))"
proof (cases "objCopyFromCache env c qn")
  case (Inl e)
  with assms show ?thesis by (simp add: reconcile_def)
next
  case (Inr found)
  show ?thesis
  proof (cases found)
    case None
    with Inr assms show ?thesis by (simp add: reconcile_def)
  next
    case (Some tc)
    with Inr have obj: "objCopyFromCache env c qn = Inr (Some tc)" by simp
    show ?thesis
    proof (cases "specialCase c tc")
      case True
      with reconcileLimitedScope_invariant [OF assms] show ?thesis
        by (simp add: reconcile_special [OF obj])
    next
      case False
      note ns = False
      show ?thesis
      proof (cases "DeletionTimestamp tc")
        case (Some t)
        then have "DeletionTimestamp tc \<noteq> None" by simp
        with reconcileDeleted_invariant [OF assms] show ?thesis
          by (simp add: reconcile_deleted [OF obj ns])
      next
        case None
        show ?thesis
        proof (cases "finalizerEnsured env tc")
          case False
          have "invariant (c\<lparr>effects := effects c @ finalizerPatch env tc\<rparr>)"
            using assms by (rule invariant_effects) simp_all
          then show ?thesis by (simp add: reconcile_patch_fails [OF obj ns None False])
        next
          case True
          note flds = reconcile_active_fields [OF obj ns None True]
          let ?a = "fst (activeSteps env tc c)"
          obtain esP where esP: "effects (fst (reconcile env qn c)) = effects ?a @ esP"
            "filter isSyncStart esP = []" "filter isStatusStart esP = []"
            using flds(6) by blast
          have "invariant (?a\<lparr>effects := effects ?a @ esP\<rparr>)"
            using activeSteps_invariant [OF assms] esP(2,3) by (rule invariant_effects)
          moreover have "invariant (fst (reconcile env qn c))
              = invariant (?a\<lparr>effects := effects ?a @ esP\<rparr>)"
            by (rule invariant_cong) (simp_all add: flds(1-3) esP(1))
          ultimately show ?thesis by simp
        qed
      qed
    qed
  qed
qed

lemma reachable_invariant: "reachable c \<Longrightarrow> invariant c"
proof (induction rule: reachable.induct)
  case (reachable_new config)
  show ?case by (rule invariant_new)
next
  case (reachable_informer c objs)
  then show ?case by (simp add: invariant_store)
next
  case (reachable_reconcile c env qualifiedName c' status)
  with reconcile_invariant [of c env qualifiedName] show ?case by simp
next
  case (reachable_shutDown c key stopChannel c')
  with stopController_invariant [of c key stopChannel] show ?case by auto
qed

lemma reachable_wellFormed: "reachable c \<Longrightarrow> wellFormed c"
  by (simp add: reachable_invariant invariant_wellFormed)

lemma short_if_all_equal: "distinct xs \<Longrightarrow> \<forall>x \<in> set xs. x = a \<Longrightarrow> length xs \<le> Suc 0"
  by (cases xs; cases "tl xs") auto

lemma distinct_concat_sub:
  assumes "distinct (concat (map g es))" and "\<And>e. f e = [] \<or> f e = g e"
  shows "distinct (concat (map f es)) \<and> set (concat (map f es)) \<subseteq> set (concat (map g es))"
  using assms(1)
proof (induction es)
  case Nil
  show ?case by simp
next
  case (Cons e es)
  then have ih: "distinct (concat (map f es))"
    "set (concat (map f es)) \<subseteq> set (concat (map g es))"
    by auto
  from assms(2) [of e] show ?case
  proof
    assume "f e = []"
    with ih show ?thesis by auto
  next
    assume "f e = g e"
    with ih Cons.prems show ?thesis by auto
  qed
qed

lemma runningSync_distinct: "invariant c \<Longrightarrow> distinct (runningSync c name)"
  unfolding runningSync_def
  by (rule distinct_concat_sub [where g = "\<lambda>e. startChans [e]", THEN conjunct1])
     (auto simp: invariant_def startChans_def split: event.splits)

lemma runningStatus_distinct: "invariant c \<Longrightarrow> distinct (runningStatus c name)"
  unfolding runningStatus_def
  by (rule distinct_concat_sub [where g = "\<lambda>e. startChans [e]", THEN conjunct1])
     (auto simp: invariant_def startChans_def split: event.splits)

lemma runningSync_mem:
  "x \<in> set (runningSync c name) \<longleftrightarrow>
     x \<notin> closedChans c \<and>
     (\<exists>d r prev. EvStartSync d r x prev True \<in> set (effects c) \<and> Name d = name)"
proof -
  let ?F = "\<lambda>e. case e of
            EvStartSync d _ ch _ ok \<Rightarrow>
              if ok \<and> Name d = name \<and> ch \<notin> closedChans c then [ch] else []
          | _ \<Rightarrow> []"
  have step: "x \<in> set (?F e) \<longleftrightarrow>
      x \<notin> closedChans c \<and> (\<exists>d r prev. e = EvStartSync d r x prev True \<and> Name d = name)"
    for e
    by (cases e) auto
  have "x \<in> set (runningSync c name) \<longleftrightarrow> (\<exists>e \<in> set (effects c). x \<in> set (?F e))"
    unfolding runningSync_def set_concat by simp
  also have "\<dots> \<longleftrightarrow> (\<exists>e \<in> set (effects c). x \<notin> closedChans c \<and>
      (\<exists>d r prev. e = EvStartSync d r x prev True \<and> Name d = name))"
    by (simp only: step)
  also have "\<dots> \<longleftrightarrow> x \<notin> closedChans c \<and>
     (\<exists>d r prev. EvStartSync d r x prev True \<in> set (effects c) \<and> Name d = name)"
    by blast
  finally show ?thesis .
qed

lemma runningStatus_mem:
  "x \<in> set (runningStatus c name) \<longleftrightarrow>
     x \<notin> closedChans c \<and>
     (\<exists>d prev. EvStartStatus d x prev True \<in> set (effects c) \<and> Name d = name)"
proof -
  let ?F = "\<lambda>e. case e of
            EvStartStatus d ch _ ok \<Rightarrow>
              if ok \<and> Name d = name \<and> ch \<notin> closedChans c then [ch] else []
          | _ \<Rightarrow> []"
  have step: "x \<in> set (?F e) \<longleftrightarrow>
      x \<notin> closedChans c \<and> (\<exists>d prev. e = EvStartStatus d x prev True \<and> Name d = name)"
    for e
    by (cases e) auto
  have "x \<in> set (runningStatus c name) \<longleftrightarrow> (\<exists>e \<in> set (effects c). x \<in> set (?F e))"
    unfolding runningStatus_def set_concat by simp
  also have "\<dots> \<longleftrightarrow> (\<exists>e \<in> set (effects c). x \<notin> closedChans c \<and>
      (\<exists>d prev. e = EvStartStatus d x prev True \<and> Name d = name))"
    by (simp only: step)
  also have "\<dots> \<longleftrightarrow> x \<notin> closedChans c \<and>
     (\<exists>d prev. EvStartStatus d x prev True \<in> set (effects c) \<and> Name d = name)"
    by blast
  finally show ?thesis .
qed

section \<open>Evaluating reconcile on concrete controllers\<close>

lemmas reconcile_eval =
  reconcile_def objCopyFromCache_def reconcileLimitedScope_def reconcileDeleted_def
  reconcileActive_def andThen_def syncStep_def statusStep_def refreshStep_def
  publishStatus_def UpdateStatus_def ensureFinalizer_def removeFinalizer_def
  ContainsFinalizer_def AddFinalizer_def RemoveFinalizer_def startSyncController_def
  startStatusController_def refreshSyncController_def stopController_def closeChan_def
  makeChan_def getStopChannel_def getFederatedNamespaceAPIResource_def
  namespaceFTCExists_def reconcileOnNamespaceFTCUpdate_def EnqueueObject_def
  isEnabledFederatedServiceStatusCollection_def Let_def

lemmas example_defs =
  clusterWide_def namespacedPlane_def configmaps_def namespaces_def clusterroles_def
  services_def keyOf_def controllerWith_def newController_def allCallsSucceed_def
  holding_def servicesOff_def servicesDeleted_def clusterrolesDeleted_def
  namespacesNew_def namespacesDeleted_def configmapsChanged_def servicesNoType_def
  finalizer_def NamespaceAll_def NamespaceName_def

lemmas notion_defs =
  specialCase_def statusControllerEnabled_def statusKeyOf_def finalizerEnsured_def
  syncStartSucceeds_def startsSync_def stopsSync_def startsStatus_def stopsStatus_def
  syncStepFails_def statusStepFails_def newEffects_def isSyncStart_def isStatusStart_def
  fedNamespaceResource_def deletionCloses_def deletionPatch_def enqueueEvents_def
  startedWith_def

section \<open>The claims\<close>

text \<open>
  C2, as amended. A reconcile of a descriptor of a cluster-scoped type with propagation
  enabled under a namespaced control plane starts no sync controller and closes no
  channel; it stores a holder channel under the descriptor's name if the map has no
  entry there, so that a lookup under the name finds an entry afterwards; its one effect
  is the status update, sent with observedGeneration set to the generation and both
  controller fields set to ControllerStatusNotRunning; and it returns AllOK when that
  update succeeds and Error when it fails.
\<close>

theorem reconcile_limited_scope:
  assumes "objCopyFromCache env c qn = Inr (Some tc)"
    and "TargetNamespace (controllerConfig c) \<noteq> NamespaceAll"
    and "PropagationEnabled tc" and "\<not> Namespaced tc"
  shows
    "(\<forall>e \<in> set (newEffects c (fst (reconcile env qn c))). \<not> isSyncStart e) \<and>
     stopChannels (fst (reconcile env qn c)) =
       (case stopChannels c (Name tc) of
          Some _ \<Rightarrow> stopChannels c
        | None \<Rightarrow> (stopChannels c)(Name tc \<mapsto> nextChan c)) \<and>
     getStopChannel (fst (reconcile env qn c)) (Name tc) \<noteq> None \<and>
     closedChans (fst (reconcile env qn c)) = closedChans c \<and>
     newEffects c (fst (reconcile env qn c)) =
       [EvUpdateStatus
          (tc\<lparr>ObservedGeneration := Generation tc,
              PropagationController := Some ControllerStatusNotRunning,
              StatusController := Some ControllerStatusNotRunning\<rparr>)
          (\<not> updateStatusErr env)] \<and>
     snd (reconcile env qn c) =
       Returned (if updateStatusErr env then StatusError else StatusAllOK)"
  using assms
  by (auto simp: reconcile_def reconcileLimitedScope_def getStopChannel_def makeChan_def
        UpdateStatus_def newEffects_def isSyncStart_def split: option.splits)

theorem reconcile_limited_scope_witness:
  "objCopyFromCache allCallsSucceed (controllerWith namespacedPlane [clusterroles])
     (keyOf clusterroles) = Inr (Some clusterroles) \<and>
   TargetNamespace (controllerConfig (controllerWith namespacedPlane [clusterroles]))
     \<noteq> NamespaceAll \<and>
   PropagationEnabled clusterroles \<and> \<not> Namespaced clusterroles \<and>
   stopChannels
     (fst (reconcile allCallsSucceed (keyOf clusterroles)
             (controllerWith namespacedPlane [clusterroles])))
     ''clusterroles'' = Some 0 \<and>
   newEffects (controllerWith namespacedPlane [clusterroles])
     (fst (reconcile allCallsSucceed (keyOf clusterroles)
             (controllerWith namespacedPlane [clusterroles]))) =
     [EvUpdateStatus
        (clusterroles\<lparr>PropagationController := Some ControllerStatusNotRunning,
                       StatusController := Some ControllerStatusNotRunning\<rparr>) True] \<and>
   snd (reconcile allCallsSucceed (keyOf clusterroles)
          (controllerWith namespacedPlane [clusterroles])) = Returned StatusAllOK"
proof -
  let ?c = "controllerWith namespacedPlane [clusterroles]"
  have h1: "objCopyFromCache allCallsSucceed ?c (keyOf clusterroles) = Inr (Some clusterroles)"
    by (simp add: objCopyFromCache_def example_defs)
  have h2: "TargetNamespace (controllerConfig ?c) \<noteq> NamespaceAll"
    by (simp add: example_defs)
  have h3: "PropagationEnabled clusterroles" and h4: "\<not> Namespaced clusterroles"
    by (simp_all add: example_defs)
  show ?thesis
    using reconcile_limited_scope [OF h1 h2 h3 h4] h1 h2 h3 h4
    by (simp add: example_defs)
qed

text \<open>
  The claim as stated fails where the status update fails: the reconcile returns Error.
\<close>

theorem reconcile_limited_scope_counterexample:
  "objCopyFromCache (allCallsSucceed\<lparr>updateStatusErr := True\<rparr>)
     (controllerWith namespacedPlane [clusterroles]) (keyOf clusterroles)
     = Inr (Some clusterroles) \<and>
   TargetNamespace (controllerConfig (controllerWith namespacedPlane [clusterroles]))
     \<noteq> NamespaceAll \<and>
   PropagationEnabled clusterroles \<and> \<not> Namespaced clusterroles \<and>
   snd (reconcile (allCallsSucceed\<lparr>updateStatusErr := True\<rparr>) (keyOf clusterroles)
          (controllerWith namespacedPlane [clusterroles])) = Returned StatusError"
  by (simp add: reconcile_eval example_defs)

text \<open>
  C1, as amended. Take a reconcile of a descriptor that is not being deleted, outside the
  special case of the namespaced control plane, whose finalizer is present or is added
  by a patch that succeeds, in a well-formed controller. If propagation is enabled, no
  entry is stored under the descriptor's name and the start succeeds, exactly one sync
  controller is started and its new stop channel is stored under the name. If an entry
  is stored under the name and propagation is disabled (or the type is namespaced and
  the descriptor of namespaces is missing), that channel is closed, the entry is removed
  and no sync controller is started. Unless the start of the sync controller failed,
  the status controller is handled alike under the key made of the name and "/status":
  started once, with its channel stored, if it is enabled, has no entry and its start
  succeeds; closed and removed if it has an entry and is not enabled.
\<close>

theorem reconcile_starts_and_stops:
  assumes "objCopyFromCache env c qn = Inr (Some tc)"
    and "DeletionTimestamp tc = None"
    and "\<not> specialCase c tc"
    and "finalizerEnsured env tc"
    and "wellFormed c"
  shows
    "(PropagationEnabled tc \<and> stopChannels c (Name tc) = None \<and> syncStartSucceeds env c tc \<longrightarrow>
        stopChannels (fst (reconcile env qn c)) (Name tc) = Some (nextChan c) \<and>
        filter isSyncStart (newEffects c (fst (reconcile env qn c))) =
          [EvStartSync (AddFinalizer tc finalizer) (fedNamespaceResource env c tc)
             (nextChan c) None True]) \<and>
     (\<forall>ch. stopChannels c (Name tc) = Some ch \<and>
           (\<not> PropagationEnabled tc \<or> (Namespaced tc \<and> \<not> namespaceFTCExists env c)) \<longrightarrow>
        stopChannels (fst (reconcile env qn c)) (Name tc) = None \<and>
        ch \<in> closedChans (fst (reconcile env qn c)) \<and>
        filter isSyncStart (newEffects c (fst (reconcile env qn c))) = []) \<and>
     (\<not> syncStepFails env c tc \<and> statusControllerEnabled c tc \<and>
      stopChannels c (statusKeyOf tc) = None \<and> \<not> startStatusErr env \<longrightarrow>
        (\<exists>ch. stopChannels (fst (reconcile env qn c)) (statusKeyOf tc) = Some ch \<and>
              nextChan c \<le> ch \<and>
              filter isStatusStart (newEffects c (fst (reconcile env qn c))) =
                [EvStartStatus (AddFinalizer tc finalizer) ch None True])) \<and>
     (\<forall>ch. \<not> syncStepFails env c tc \<and> \<not> statusControllerEnabled c tc \<and>
           stopChannels c (statusKeyOf tc) = Some ch \<longrightarrow>
        stopChannels (fst (reconcile env qn c)) (statusKeyOf tc) = None \<and>
        ch \<in> closedChans (fst (reconcile env qn c)) \<and>
        filter isStatusStart (newEffects c (fst (reconcile env qn c))) = [])"
proof -
  let ?c' = "fst (reconcile env qn c)"
  let ?tc = "AddFinalizer tc finalizer"
  let ?c2 = "afterFinalizer env tc c"
  note flds = reconcile_active_fields [OF assms(1) assms(3) assms(2) assms(4)]
  obtain esP where esP: "effects ?c' = effects (fst (activeSteps env tc c)) @ esP"
    "filter isSyncStart esP = []" "filter isStatusStart esP = []"
    using flds(6) by blast
  obtain es1 where es1: "effects ?c2 = effects c @ es1"
    "filter isSyncStart es1 = []" "filter isStatusStart es1 = []"
    using effects_afterFinalizer by blast
  have part_a: "stopChannels ?c' (Name tc) = Some (nextChan c) \<and>
      filter isSyncStart (newEffects c ?c') =
        [EvStartSync ?tc (fedNamespaceResource env c tc) (nextChan c) None True]"
    if a: "PropagationEnabled tc" "stopChannels c (Name tc) = None" "syncStartSucceeds env c tc"
  proof -
    have starts: "startsSync c tc" using a by (simp add: startsSync_def)
    let ?c3 = "?c2\<lparr>stopChannels := (stopChannels c)(Name tc \<mapsto> nextChan c),
         nextChan := Suc (nextChan c),
         effects := effects ?c2 @
           [EvStartSync ?tc (fedNamespaceResource env c tc) (nextChan c) None True]\<rparr>"
    have steps: "activeSteps env tc c = statusStepOf env tc c ?c3"
      by (simp add: activeSteps_def syncStepOf_start_ok [OF starts a(3)]
            refreshStepOf_skip starts)
    obtain es4 where es4: "effects (fst (statusStepOf env tc c ?c3)) = effects ?c3 @ es4"
      "filter isSyncStart es4 = []"
      unfolding statusStepOf_def using statusStep_frame(3) by blast
    have "stopChannels ?c' (Name tc) = Some (nextChan c)"
      by (simp add: flds(1) steps statusStepOf_def statusStep_frame(1))
    moreover have "effects (fst (activeSteps env tc c)) = effects ?c3 @ es4"
      using es4(1) by (simp only: steps)
    then have "newEffects c ?c' =
        es1 @ [EvStartSync ?tc (fedNamespaceResource env c tc) (nextChan c) None True] @
        es4 @ esP"
      by (intro newEffects_append) (simp add: esP(1) es1(1))
    ultimately show ?thesis
      by (simp add: es1(2) es4(2) esP(2) isSyncStart_def)
  qed
  have part_b: "stopChannels ?c' (Name tc) = None \<and> ch \<in> closedChans ?c' \<and>
      filter isSyncStart (newEffects c ?c') = []"
    if b: "stopChannels c (Name tc) = Some ch"
      "\<not> PropagationEnabled tc \<or> (Namespaced tc \<and> \<not> namespaceFTCExists env c)" for ch
  proof -
    have stops: "stopsSync env c tc" using b by (auto simp: stopsSync_def)
    have "ch \<notin> closedChans c" using assms(5) b(1) by (rule wellFormed_open)
    let ?c3 = "?c2\<lparr>stopChannels := (stopChannels c)(Name tc := None),
         closedChans := insert ch (closedChans c),
         effects := effects ?c2 @ [EvClose ch]\<rparr>"
    have steps: "activeSteps env tc c = statusStepOf env tc c ?c3"
      by (simp add: activeSteps_def syncStepOf_stop [OF stops b(1) \<open>ch \<notin> closedChans c\<close>]
            refreshStepOf_skip stops)
    obtain es4 where es4: "effects (fst (statusStepOf env tc c ?c3)) = effects ?c3 @ es4"
      "filter isSyncStart es4 = []"
      unfolding statusStepOf_def using statusStep_frame(3) by blast
    have "stopChannels ?c' (Name tc) = None"
      by (simp add: flds(1) steps statusStepOf_def statusStep_frame(1))
    moreover have "ch \<in> closedChans ?c'"
      using statusStep_frame(2) [of ?c3] by (auto simp: flds(2) steps statusStepOf_def)
    moreover have "effects (fst (activeSteps env tc c)) = effects ?c3 @ es4"
      using es4(1) by (simp only: steps)
    then have "newEffects c ?c' = es1 @ [EvClose ch] @ es4 @ esP"
      by (intro newEffects_append) (simp add: esP(1) es1(1))
    ultimately show ?thesis
      by (simp add: es1(2) es4(2) esP(2) isSyncStart_def)
  qed
  obtain es3 where es3: "effects (fst (syncStepOf env tc c)) = effects c @ es3"
    "filter isStatusStart es3 = []"
    using syncStepOf_frame(3) by blast
  have part_c: "\<exists>ch. stopChannels ?c' (statusKeyOf tc) = Some ch \<and> nextChan c \<le> ch \<and>
      filter isStatusStart (newEffects c ?c') = [EvStartStatus ?tc ch None True]"
    if c: "\<not> syncStepFails env c tc" "statusControllerEnabled c tc"
      "stopChannels c (statusKeyOf tc) = None" "\<not> startStatusErr env"
  proof -
    let ?c3 = "fst (syncStepOf env tc c)"
    have goes: "snd (syncStepOf env tc c) = None"
      using assms(5) c(1) by (rule syncStepOf_goes_on)
    have starts: "startsStatus c tc" using c by (simp add: startsStatus_def)
    have none3: "stopChannels ?c3 (statusKeyOf tc) = None"
      by (simp add: syncStepOf_frame(1) c(3))
    let ?c4 = "?c3\<lparr>stopChannels := (stopChannels ?c3)(statusKeyOf tc \<mapsto> nextChan ?c3),
        nextChan := Suc (nextChan ?c3),
        effects := effects ?c3 @ [EvStartStatus ?tc (nextChan ?c3) None True]\<rparr>"
    have st: "statusStepOf env tc c ?c3 = (?c4, None)"
      by (simp add: statusStepOf_def starts statusStep_start_ok c(4) none3)
    have steps: "activeSteps env tc c = refreshStepOf env tc c ?c4"
      by (simp add: activeSteps_def andThen_go_on [OF goes] st)
    obtain es5 where es5: "effects (fst (refreshStepOf env tc c ?c4)) = effects ?c4 @ es5"
      "filter isStatusStart es5 = []"
      unfolding refreshStepOf_def using refreshStep_frame(3) by blast
    have "stopChannels ?c' (statusKeyOf tc) = Some (nextChan ?c3)"
      by (simp add: flds(1) steps refreshStepOf_def refreshStep_frame(1))
    moreover have "effects (fst (activeSteps env tc c)) = effects ?c4 @ es5"
      using es5(1) by (simp only: steps)
    then have "newEffects c ?c' =
        es3 @ [EvStartStatus ?tc (nextChan ?c3) None True] @ es5 @ esP"
      by (intro newEffects_append) (simp add: esP(1) es3(1))
    moreover have "nextChan c \<le> nextChan ?c3"
      by (auto simp: syncStepOf_def syncStep_def startSyncController_def stopController_def
            closeChan_def makeChan_def Let_def split: option.splits sum.splits)
    ultimately show ?thesis
      by (simp add: es3(2) es5(2) esP(3) isStatusStart_def)
  qed
  have part_d: "stopChannels ?c' (statusKeyOf tc) = None \<and> ch \<in> closedChans ?c' \<and>
      filter isStatusStart (newEffects c ?c') = []"
    if d: "\<not> syncStepFails env c tc" "\<not> statusControllerEnabled c tc"
      "stopChannels c (statusKeyOf tc) = Some ch" for ch
  proof -
    let ?c3 = "fst (syncStepOf env tc c)"
    have goes: "snd (syncStepOf env tc c) = None"
      using assms(5) d(1) by (rule syncStepOf_goes_on)
    have stops: "stopsStatus c tc" "\<not> startsStatus c tc"
      using d by (simp_all add: stopsStatus_def startsStatus_def)
    have open3: "ch \<notin> closedChans ?c3"
      using assms(5) d(3) by (rule syncStepOf_keeps_open) simp
    let ?c4 = "?c3\<lparr>stopChannels := (stopChannels ?c3)(statusKeyOf tc := None),
        closedChans := insert ch (closedChans ?c3),
        effects := effects ?c3 @ [EvClose ch]\<rparr>"
    have st: "statusStepOf env tc c ?c3 = (?c4, None)"
      by (simp add: statusStepOf_def stops d(3) statusStep_stop [OF open3])
    have steps: "activeSteps env tc c = refreshStepOf env tc c ?c4"
      by (simp add: activeSteps_def andThen_go_on [OF goes] st)
    obtain es5 where es5: "effects (fst (refreshStepOf env tc c ?c4)) = effects ?c4 @ es5"
      "filter isStatusStart es5 = []"
      unfolding refreshStepOf_def using refreshStep_frame(3) by blast
    have "stopChannels ?c' (statusKeyOf tc) = None"
      by (simp add: flds(1) steps refreshStepOf_def refreshStep_frame(1))
    moreover have "ch \<in> closedChans ?c'"
      using refreshStep_frame(2) [of ?c4] by (auto simp: flds(2) steps refreshStepOf_def)
    moreover have "effects (fst (activeSteps env tc c)) = effects ?c4 @ es5"
      using es5(1) by (simp only: steps)
    then have "newEffects c ?c' = es3 @ [EvClose ch] @ es5 @ esP"
      by (intro newEffects_append) (simp add: esP(1) es3(1))
    ultimately show ?thesis
      by (simp add: es3(2) es5(2) esP(3) isStatusStart_def)
  qed
  from part_a part_b part_c part_d show ?thesis by blast
qed

theorem reconcile_starts_and_stops_witness:
  "objCopyFromCache allCallsSucceed (controllerWith clusterWide [services, namespaces])
     (keyOf services) = Inr (Some services) \<and>
   finalizerEnsured allCallsSucceed services \<and>
   wellFormed (controllerWith clusterWide [services, namespaces]) \<and>
   syncStartSucceeds allCallsSucceed (controllerWith clusterWide [services, namespaces])
     services \<and>
   stopChannels
     (fst (reconcile allCallsSucceed (keyOf services)
             (controllerWith clusterWide [services, namespaces])))
     ''services'' = Some 0 \<and>
   stopChannels
     (fst (reconcile allCallsSucceed (keyOf services)
             (controllerWith clusterWide [services, namespaces])))
     ''services/status'' = Some 1 \<and>
   objCopyFromCache allCallsSucceed
     (holding [(''services'', 0), (''services/status'', 1)]
        (controllerWith clusterWide [servicesOff, namespaces]))
     (keyOf servicesOff) = Inr (Some servicesOff) \<and>
   wellFormed
     (holding [(''services'', 0), (''services/status'', 1)]
        (controllerWith clusterWide [servicesOff, namespaces])) \<and>
   stopChannels
     (fst (reconcile allCallsSucceed (keyOf servicesOff)
             (holding [(''services'', 0), (''services/status'', 1)]
                (controllerWith clusterWide [servicesOff, namespaces]))))
     ''services'' = None \<and>
   stopChannels
     (fst (reconcile allCallsSucceed (keyOf servicesOff)
             (holding [(''services'', 0), (''services/status'', 1)]
                (controllerWith clusterWide [servicesOff, namespaces]))))
     ''services/status'' = None \<and>
   {0, 1} \<subseteq> closedChans
     (fst (reconcile allCallsSucceed (keyOf servicesOff)
             (holding [(''services'', 0), (''services/status'', 1)]
                (controllerWith clusterWide [servicesOff, namespaces]))))"
proof -
  let ?A = "controllerWith clusterWide [services, namespaces]"
  let ?B = "holding [(''services'', 0), (''services/status'', 1)]
              (controllerWith clusterWide [servicesOff, namespaces])"
  have a1: "objCopyFromCache allCallsSucceed ?A (keyOf services) = Inr (Some services)"
    by (simp add: objCopyFromCache_def example_defs)
  have a2: "DeletionTimestamp services = None" by (simp add: example_defs)
  have a3: "\<not> specialCase ?A services" by (simp add: example_defs notion_defs)
  have a4: "finalizerEnsured allCallsSucceed services"
    by (simp add: example_defs notion_defs ContainsFinalizer_def)
  have a5: "wellFormed ?A" by (simp add: wellFormed_def example_defs)
  have a6: "syncStartSucceeds allCallsSucceed ?A services"
    by (simp add: example_defs notion_defs namespaceFTCExists_def
          getFederatedNamespaceAPIResource_def)
  have a7: "PropagationEnabled services \<and> stopChannels ?A (Name services) = None \<and>
      \<not> syncStepFails allCallsSucceed ?A services \<and> statusControllerEnabled ?A services \<and>
      stopChannels ?A (statusKeyOf services) = None \<and> \<not> startStatusErr allCallsSucceed"
    using a6 by (simp add: example_defs notion_defs
          isEnabledFederatedServiceStatusCollection_def)
  have b1: "objCopyFromCache allCallsSucceed ?B (keyOf servicesOff) = Inr (Some servicesOff)"
    by (simp add: objCopyFromCache_def example_defs)
  have b2: "DeletionTimestamp servicesOff = None" by (simp add: example_defs)
  have b3: "\<not> specialCase ?B servicesOff" by (simp add: example_defs notion_defs)
  have b4: "finalizerEnsured allCallsSucceed servicesOff"
    by (simp add: example_defs notion_defs ContainsFinalizer_def)
  have b5: "wellFormed ?B" by (auto simp: wellFormed_def example_defs split: if_splits)
  have b6: "stopChannels ?B (Name servicesOff) = Some 0 \<and> \<not> PropagationEnabled servicesOff \<and>
      \<not> syncStepFails allCallsSucceed ?B servicesOff \<and>
      \<not> statusControllerEnabled ?B servicesOff \<and>
      stopChannels ?B (statusKeyOf servicesOff) = Some 1"
    by (simp add: example_defs notion_defs isEnabledFederatedServiceStatusCollection_def)
  note A = reconcile_starts_and_stops [OF a1 a2 a3 a4 a5]
  note B = reconcile_starts_and_stops [OF b1 b2 b3 b4 b5]
  have "stopChannels (fst (reconcile allCallsSucceed (keyOf services) ?A)) (Name services)
      = Some (nextChan ?A)"
    using A a6 a7 by blast
  moreover obtain ch where
    "stopChannels (fst (reconcile allCallsSucceed (keyOf services) ?A)) (statusKeyOf services)
       = Some ch"
    "filter isStatusStart (newEffects ?A (fst (reconcile allCallsSucceed (keyOf services) ?A)))
       = [EvStartStatus (AddFinalizer services finalizer) ch None True]"
    using A a7 by blast
  moreover have "stopChannels (fst (reconcile allCallsSucceed (keyOf servicesOff) ?B))
        (Name servicesOff) = None \<and>
      0 \<in> closedChans (fst (reconcile allCallsSucceed (keyOf servicesOff) ?B))"
    using B b6 by blast
  moreover have "stopChannels (fst (reconcile allCallsSucceed (keyOf servicesOff) ?B))
        (statusKeyOf servicesOff) = None \<and>
      1 \<in> closedChans (fst (reconcile allCallsSucceed (keyOf servicesOff) ?B))"
    using B b6 by blast
  ultimately show ?thesis
    using a1 a4 a5 a6 b1 b5
    by (simp add: example_defs notion_defs reconcile_eval)
qed

text \<open>
  The claim as stated fails where the start fails: for a namespaced type without the
  descriptor of namespaces in the store no sync controller is started, no channel is
  stored and the reconcile returns Error.
\<close>

theorem reconcile_starts_and_stops_counterexample:
  "objCopyFromCache allCallsSucceed (controllerWith clusterWide [configmaps]) (keyOf configmaps)
     = Inr (Some configmaps) \<and>
   DeletionTimestamp configmaps = None \<and>
   \<not> specialCase (controllerWith clusterWide [configmaps]) configmaps \<and>
   PropagationEnabled configmaps \<and>
   stopChannels (controllerWith clusterWide [configmaps]) (Name configmaps) = None \<and>
   stopChannels
     (fst (reconcile allCallsSucceed (keyOf configmaps) (controllerWith clusterWide [configmaps])))
     (Name configmaps) = None \<and>
   filter isSyncStart
     (newEffects (controllerWith clusterWide [configmaps])
        (fst (reconcile allCallsSucceed (keyOf configmaps)
                (controllerWith clusterWide [configmaps])))) = [] \<and>
   snd (reconcile allCallsSucceed (keyOf configmaps) (controllerWith clusterWide [configmaps]))
     = Returned StatusError"
  by (simp add: reconcile_eval example_defs notion_defs)

text \<open>
  C3, as amended. Take a reconcile of a descriptor whose DeletionTimestamp is set,
  outside the special case of the namespaced control plane, in a well-formed controller.
  The channels stored under the descriptor's name and under its status key are closed
  and both entries are removed; the descriptors are enqueued if this is the descriptor
  of namespaces; and only then the finalizer, if it is there, is removed by a patch.
  The reconcile returns AllOK when the patch succeeds or is not needed and Error when
  it fails, and no entry is left under either key in both cases.
\<close>

theorem reconcile_deleted_stops_then_removes_finalizer:
  assumes "objCopyFromCache env c qn = Inr (Some tc)"
    and "DeletionTimestamp tc \<noteq> None"
    and "\<not> specialCase c tc"
    and "wellFormed c"
  shows
    "stopChannels (fst (reconcile env qn c)) (Name tc) = None \<and>
     stopChannels (fst (reconcile env qn c)) (statusKeyOf tc) = None \<and>
     (\<forall>ch. stopChannels c (Name tc) = Some ch \<or> stopChannels c (statusKeyOf tc) = Some ch
        \<longrightarrow> ch \<in> closedChans (fst (reconcile env qn c))) \<and>
     newEffects c (fst (reconcile env qn c)) =
       deletionCloses c tc @ (if IsNamespace tc then enqueueEvents c else []) @
       deletionPatch env tc \<and>
     snd (reconcile env qn c) =
       Returned (if ContainsFinalizer tc finalizer \<and> patchErr env then StatusError
                 else StatusAllOK)"
  by (simp add: reconcile_deleted [OF assms(1) assms(3) assms(2)]
        reconcileDeleted_eq [OF assms(4)] newEffects_def)

theorem reconcile_deleted_stops_then_removes_finalizer_witness:
  "objCopyFromCache (allCallsSucceed\<lparr>patchErr := True\<rparr>)
     (holding [(''services'', 0), (''services/status'', 1)]
        (controllerWith clusterWide [servicesDeleted, namespaces]))
     (keyOf servicesDeleted) = Inr (Some servicesDeleted) \<and>
   DeletionTimestamp servicesDeleted \<noteq> None \<and>
   \<not> specialCase
       (holding [(''services'', 0), (''services/status'', 1)]
          (controllerWith clusterWide [servicesDeleted, namespaces])) servicesDeleted \<and>
   wellFormed
     (holding [(''services'', 0), (''services/status'', 1)]
        (controllerWith clusterWide [servicesDeleted, namespaces])) \<and>
   stopChannels
     (fst (reconcile (allCallsSucceed\<lparr>patchErr := True\<rparr>) (keyOf servicesDeleted)
             (holding [(''services'', 0), (''services/status'', 1)]
                (controllerWith clusterWide [servicesDeleted, namespaces]))))
     ''services'' = None \<and>
   stopChannels
     (fst (reconcile (allCallsSucceed\<lparr>patchErr := True\<rparr>) (keyOf servicesDeleted)
             (holding [(''services'', 0), (''services/status'', 1)]
                (controllerWith clusterWide [servicesDeleted, namespaces]))))
     ''services/status'' = None \<and>
   newEffects
     (holding [(''services'', 0), (''services/status'', 1)]
        (controllerWith clusterWide [servicesDeleted, namespaces]))
     (fst (reconcile (allCallsSucceed\<lparr>patchErr := True\<rparr>) (keyOf servicesDeleted)
             (holding [(''services'', 0), (''services/status'', 1)]
                (controllerWith clusterWide [servicesDeleted, namespaces])))) =
     [EvClose 0, EvClose 1, EvPatch (servicesDeleted\<lparr>Finalizers := []\<rparr>) False] \<and>
   snd (reconcile (allCallsSucceed\<lparr>patchErr := True\<rparr>) (keyOf servicesDeleted)
          (holding [(''services'', 0), (''services/status'', 1)]
             (controllerWith clusterWide [servicesDeleted, namespaces]))) =
     Returned StatusError"
proof -
  let ?c = "holding [(''services'', 0), (''services/status'', 1)]
              (controllerWith clusterWide [servicesDeleted, namespaces])"
  let ?env = "allCallsSucceed\<lparr>patchErr := True\<rparr>"
  have h1: "objCopyFromCache ?env ?c (keyOf servicesDeleted) = Inr (Some servicesDeleted)"
    by (simp add: objCopyFromCache_def example_defs)
  have h2: "DeletionTimestamp servicesDeleted \<noteq> None" by (simp add: example_defs)
  have h3: "\<not> specialCase ?c servicesDeleted" by (simp add: example_defs notion_defs)
  have h4: "wellFormed ?c" by (auto simp: wellFormed_def example_defs split: if_splits)
  show ?thesis
    using reconcile_deleted_stops_then_removes_finalizer [OF h1 h2 h3 h4] h1 h2 h3 h4
    by (simp add: example_defs notion_defs ContainsFinalizer_def RemoveFinalizer_def)
qed

text \<open>
  The claim as stated fails in the special case, which reconcile tests before it looks
  at the DeletionTimestamp: for a cluster-scoped type with propagation enabled under a
  namespaced control plane the entry under the name stays, its channel stays open, and
  no patch removes the finalizer.
\<close>

theorem reconcile_deleted_stops_then_removes_finalizer_counterexample:
  "objCopyFromCache allCallsSucceed
     (holding [(''clusterroles'', 0)] (controllerWith namespacedPlane [clusterrolesDeleted]))
     (keyOf clusterrolesDeleted) = Inr (Some clusterrolesDeleted) \<and>
   DeletionTimestamp clusterrolesDeleted \<noteq> None \<and>
   ContainsFinalizer clusterrolesDeleted finalizer \<and>
   stopChannels
     (fst (reconcile allCallsSucceed (keyOf clusterrolesDeleted)
        (holding [(''clusterroles'', 0)] (controllerWith namespacedPlane [clusterrolesDeleted]))))
     ''clusterroles'' = Some 0 \<and>
   0 \<notin> closedChans
     (fst (reconcile allCallsSucceed (keyOf clusterrolesDeleted)
        (holding [(''clusterroles'', 0)] (controllerWith namespacedPlane [clusterrolesDeleted])))) \<and>
   newEffects
     (holding [(''clusterroles'', 0)] (controllerWith namespacedPlane [clusterrolesDeleted]))
     (fst (reconcile allCallsSucceed (keyOf clusterrolesDeleted)
        (holding [(''clusterroles'', 0)] (controllerWith namespacedPlane [clusterrolesDeleted])))) =
     [EvUpdateStatus
        (clusterrolesDeleted\<lparr>PropagationController := Some ControllerStatusNotRunning,
                              StatusController := Some ControllerStatusNotRunning\<rparr>) True]"
  by (simp add: reconcile_eval example_defs notion_defs)

text \<open>
  C5, as amended. Take a reconcile of the descriptor of namespaces outside the special
  case of the namespaced control plane, in a well-formed controller. When the
  descriptor appears (it has no finalizer yet and the patch that adds it succeeds) or
  disappears (its DeletionTimestamp is set), every descriptor of the store that is
  namespaced and is not itself a descriptor of namespaces is enqueued.
\<close>

theorem namespaces_descriptor_enqueues_namespaced:
  assumes "objCopyFromCache env c qn = Inr (Some tc)"
    and "IsNamespace tc"
    and "\<not> specialCase c tc"
    and "wellFormed c"
    and "DeletionTimestamp tc \<noteq> None \<or>
         (\<not> ContainsFinalizer tc finalizer \<and> \<not> patchErr env)"
  shows "\<forall>d \<in> set (map snd (store c)). Namespaced d \<and> \<not> IsNamespace d \<longrightarrow>
           EvEnqueue (keyOf d) \<in> set (newEffects c (fst (reconcile env qn c)))"
proof -
  have "set (enqueueEvents c) \<subseteq> set (newEffects c (fst (reconcile env qn c)))"
  proof (cases "DeletionTimestamp tc")
    case (Some t)
    then have "newEffects c (fst (reconcile env qn c)) =
        deletionCloses c tc @ enqueueEvents c @ deletionPatch env tc"
      using assms(2)
      by (simp add: reconcile_deleted [OF assms(1) assms(3)] reconcileDeleted_eq [OF assms(4)]
            newEffects_def)
    then show ?thesis by auto
  next
    case None
    then have new: "\<not> ContainsFinalizer tc finalizer" "\<not> patchErr env"
      using assms(5) by auto
    then have ens: "finalizerEnsured env tc" by (simp add: finalizerEnsured_def)
    obtain esP where
      "effects (fst (reconcile env qn c)) = effects (fst (activeSteps env tc c)) @ esP"
      using reconcile_active_fields(6) [OF assms(1) assms(3) None ens] by blast
    moreover obtain es where
      "effects (fst (activeSteps env tc c)) = effects (afterFinalizer env tc c) @ es"
      using activeSteps_effects by blast
    ultimately have "newEffects c (fst (reconcile env qn c)) =
        finalizerPatch env tc @ enqueueEvents c @ es @ esP"
      using new(1) assms(2) by (intro newEffects_append) (simp add: afterFinalizer_def)
    then show ?thesis by auto
  qed
  then show ?thesis by (auto simp: enqueueEvents_def)
qed

theorem namespaces_descriptor_enqueues_namespaced_witness:
  "objCopyFromCache allCallsSucceed
     (controllerWith clusterWide [namespacesNew, configmaps, services]) (keyOf namespacesNew)
     = Inr (Some namespacesNew) \<and>
   IsNamespace namespacesNew \<and>
   \<not> specialCase (controllerWith clusterWide [namespacesNew, configmaps, services])
       namespacesNew \<and>
   wellFormed (controllerWith clusterWide [namespacesNew, configmaps, services]) \<and>
   \<not> ContainsFinalizer namespacesNew finalizer \<and> \<not> patchErr allCallsSucceed \<and>
   {EvEnqueue (keyOf configmaps), EvEnqueue (keyOf services)} \<subseteq>
     set (newEffects (controllerWith clusterWide [namespacesNew, configmaps, services])
            (fst (reconcile allCallsSucceed (keyOf namespacesNew)
                    (controllerWith clusterWide [namespacesNew, configmaps, services])))) \<and>
   objCopyFromCache allCallsSucceed
     (controllerWith clusterWide [namespacesDeleted, configmaps]) (keyOf namespacesDeleted)
     = Inr (Some namespacesDeleted) \<and>
   DeletionTimestamp namespacesDeleted \<noteq> None \<and>
   EvEnqueue (keyOf configmaps) \<in>
     set (newEffects (controllerWith clusterWide [namespacesDeleted, configmaps])
            (fst (reconcile allCallsSucceed (keyOf namespacesDeleted)
                    (controllerWith clusterWide [namespacesDeleted, configmaps]))))"
proof -
  let ?A = "controllerWith clusterWide [namespacesNew, configmaps, services]"
  let ?B = "controllerWith clusterWide [namespacesDeleted, configmaps]"
  have a1: "objCopyFromCache allCallsSucceed ?A (keyOf namespacesNew) = Inr (Some namespacesNew)"
    by (simp add: objCopyFromCache_def example_defs)
  have a2: "IsNamespace namespacesNew" by (simp add: example_defs)
  have a3: "\<not> specialCase ?A namespacesNew" by (simp add: example_defs notion_defs)
  have a4: "wellFormed ?A" by (simp add: wellFormed_def example_defs)
  have a5: "\<not> ContainsFinalizer namespacesNew finalizer \<and> \<not> patchErr allCallsSucceed"
    by (simp add: example_defs ContainsFinalizer_def)
  have a6: "configmaps \<in> set (map snd (store ?A)) \<and> Namespaced configmaps \<and>
      \<not> IsNamespace configmaps \<and> services \<in> set (map snd (store ?A)) \<and>
      Namespaced services \<and> \<not> IsNamespace services"
    by (simp add: example_defs)
  have b1: "objCopyFromCache allCallsSucceed ?B (keyOf namespacesDeleted)
      = Inr (Some namespacesDeleted)"
    by (simp add: objCopyFromCache_def example_defs)
  have b2: "IsNamespace namespacesDeleted" by (simp add: example_defs)
  have b3: "\<not> specialCase ?B namespacesDeleted" by (simp add: example_defs notion_defs)
  have b4: "wellFormed ?B" by (simp add: wellFormed_def example_defs)
  have b5: "DeletionTimestamp namespacesDeleted \<noteq> None" by (simp add: example_defs)
  have b6: "configmaps \<in> set (map snd (store ?B)) \<and> Namespaced configmaps \<and>
      \<not> IsNamespace configmaps"
    by (simp add: example_defs)
  have A: "EvEnqueue (keyOf configmaps) \<in>
      set (newEffects ?A (fst (reconcile allCallsSucceed (keyOf namespacesNew) ?A)))"
    "EvEnqueue (keyOf services) \<in>
      set (newEffects ?A (fst (reconcile allCallsSucceed (keyOf namespacesNew) ?A)))"
    using namespaces_descriptor_enqueues_namespaced [OF a1 a2 a3 a4] a5 a6 by blast+
  have B: "EvEnqueue (keyOf configmaps) \<in>
      set (newEffects ?B (fst (reconcile allCallsSucceed (keyOf namespacesDeleted) ?B)))"
    using namespaces_descriptor_enqueues_namespaced [OF b1 b2 b3 b4] b5 b6 by blast
  show ?thesis
    using a1 a2 a3 a4 a5 A b1 b5 B by simp
qed

text \<open>
  The claim as stated fails in the special case: under a namespaced control plane the
  descriptor of namespaces, cluster-scoped and with propagation enabled, is reconciled
  with its DeletionTimestamp set and nothing is enqueued, with a namespaced descriptor
  in the store.
\<close>

theorem namespaces_descriptor_enqueues_namespaced_counterexample:
  "objCopyFromCache allCallsSucceed
     (controllerWith namespacedPlane [namespacesDeleted, configmaps]) (keyOf namespacesDeleted)
     = Inr (Some namespacesDeleted) \<and>
   IsNamespace namespacesDeleted \<and> DeletionTimestamp namespacesDeleted \<noteq> None \<and>
   configmaps \<in> set (map snd (store (controllerWith namespacedPlane
                                        [namespacesDeleted, configmaps]))) \<and>
   Namespaced configmaps \<and> \<not> IsNamespace configmaps \<and>
   EvEnqueue (keyOf configmaps) \<notin>
     set (newEffects (controllerWith namespacedPlane [namespacesDeleted, configmaps])
            (fst (reconcile allCallsSucceed (keyOf namespacesDeleted)
                    (controllerWith namespacedPlane [namespacesDeleted, configmaps]))))"
  by (simp add: reconcile_eval example_defs notion_defs)

text \<open>
  C4, as amended. Take a reconcile of a descriptor that is not being deleted, outside the
  special case of the namespaced control plane, whose finalizer is present or is added
  by a patch that succeeds, in a well-formed controller, in which the sync controller is
  neither newly started nor stopped and the start of the status controller does not
  fail. If status.observedGeneration differs from metadata.generation, the channel
  stored under the descriptor's name, if any, is closed and removed, and the start of a
  new sync controller is attempted: when it succeeds, it is the one sync controller
  started by the reconcile and its new channel is stored under the name; when it fails,
  no entry is left under the name and the reconcile returns Error.
\<close>

theorem reconcile_refreshes_sync_controller:
  assumes "objCopyFromCache env c qn = Inr (Some tc)"
    and "DeletionTimestamp tc = None"
    and "\<not> specialCase c tc"
    and "finalizerEnsured env tc"
    and "wellFormed c"
    and "\<not> startsSync c tc" and "\<not> stopsSync env c tc"
    and "\<not> statusStepFails env c tc"
    and "ObservedGeneration tc \<noteq> Generation tc"
  shows
    "(\<forall>ch. stopChannels c (Name tc) = Some ch \<longrightarrow>
         ch \<in> closedChans (fst (reconcile env qn c))) \<and>
     (syncStartSucceeds env c tc \<longrightarrow>
        (\<exists>new. nextChan c \<le> new \<and>
           stopChannels (fst (reconcile env qn c)) (Name tc) = Some new \<and>
           filter isSyncStart (newEffects c (fst (reconcile env qn c))) =
             [EvStartSync (AddFinalizer tc finalizer) (fedNamespaceResource env c tc)
                new None True])) \<and>
     (\<not> syncStartSucceeds env c tc \<longrightarrow>
        stopChannels (fst (reconcile env qn c)) (Name tc) = None \<and>
        snd (reconcile env qn c) = Returned StatusError)"
proof -
  let ?c' = "fst (reconcile env qn c)"
  let ?tc = "AddFinalizer tc finalizer"
  let ?c2 = "afterFinalizer env tc c"
  let ?c4 = "fst (statusStepOf env tc c ?c2)"
  note flds = reconcile_active_fields [OF assms(1) assms(3) assms(2) assms(4)]
  have goes4: "snd (statusStepOf env tc c ?c2) = None"
    using assms(8) by (rule statusStepOf_goes_on) (simp add: assms(5) wellFormed_open)
  have steps: "activeSteps env tc c = refreshStep env ?tc False False ?c4"
    by (simp add: activeSteps_def syncStepOf_neither [OF assms(6) assms(7)]
          andThen_go_on [OF goes4] refreshStepOf_def assms(6) assms(7))
  have name4: "stopChannels ?c4 (Name tc) = stopChannels c (Name tc)"
    by (simp add: statusStepOf_def statusStep_frame(1))
  have open4: "\<forall>ch. stopChannels ?c4 (Name ?tc) = Some ch \<longrightarrow> ch \<notin> closedChans ?c4"
  proof (intro allI impI notI)
    fix ch
    assume "stopChannels ?c4 (Name ?tc) = Some ch"
    then have reg: "stopChannels c (Name tc) = Some ch" by (simp add: name4)
    assume "ch \<in> closedChans ?c4"
    then consider "ch \<in> closedChans ?c2" | "stopChannels c (statusKeyOf tc) = Some ch"
      | "ch = nextChan ?c2"
      unfolding statusStepOf_def using statusStep_closed_only by blast
    then show False
    proof cases
      case 1
      with wellFormed_open [OF assms(5) reg] show False by simp
    next
      case 2
      with wellFormed_one_key [OF assms(5) reg, of "statusKeyOf tc"] show False by simp
    next
      case 3
      with wellFormed_made [OF assms(5) reg] show False by simp
    qed
  qed
  have same4: "syncStartSucceeds env ?c4 tc = syncStartSucceeds env c tc"
    "fedNamespaceResource env ?c4 tc = fedNamespaceResource env c tc"
    using syncStartSucceeds_cong(1) [of ?c4 ?c2 env tc]
      syncStartSucceeds_cong(2) [of ?c4 ?c2 env tc]
    by (simp_all add: statusStepOf_def statusStep_store)
  have gen: "ObservedGeneration ?tc \<noteq> Generation ?tc" using assms(9) by simp
  obtain esP where esP: "effects ?c' = effects (fst (activeSteps env tc c)) @ esP"
    "filter isSyncStart esP = []"
    using flds(6) by blast
  obtain es1 where es1: "effects ?c2 = effects c @ es1" "filter isSyncStart es1 = []"
    using effects_afterFinalizer by blast
  obtain es4 where es4: "effects ?c4 = effects ?c2 @ es4" "filter isSyncStart es4 = []"
    unfolding statusStepOf_def using statusStep_frame(3) by blast
  have next4: "nextChan c \<le> nextChan ?c4"
    using statusStep_store(3) [of ?c2] by (simp add: statusStepOf_def)
  have closed: "ch \<in> closedChans ?c'" if "stopChannels c (Name tc) = Some ch" for ch
  proof (cases "syncStartSucceeds env c tc")
    case True
    then have succ4: "syncStartSucceeds env ?c4 ?tc" by (simp add: same4)
    show ?thesis
      using that
      by (simp add: flds(2) steps refreshStep_run_ok [OF gen open4 succ4] name4)
  next
    case False
    then have fail4: "\<not> syncStartSucceeds env ?c4 ?tc" by (simp add: same4)
    show ?thesis
      using that refreshStep_run_fails [OF gen open4 fail4]
      by (auto simp: flds(2) steps name4)
  qed
  have ok: "\<exists>new. nextChan c \<le> new \<and> stopChannels ?c' (Name tc) = Some new \<and>
      filter isSyncStart (newEffects c ?c') =
        [EvStartSync ?tc (fedNamespaceResource env c tc) new None True]"
    if succ: "syncStartSucceeds env c tc"
  proof -
    have succ4: "syncStartSucceeds env ?c4 ?tc" using succ by (simp add: same4)
    have run: "activeSteps env tc c =
       (?c4\<lparr>stopChannels := (stopChannels ?c4)(Name tc \<mapsto> nextChan ?c4),
          closedChans := closedChans ?c4 \<union> set_option (stopChannels c (Name tc)),
          nextChan := Suc (nextChan ?c4),
          effects := effects ?c4 @
            (case stopChannels c (Name tc) of None \<Rightarrow> [] | Some ch \<Rightarrow> [EvClose ch]) @
            [EvStartSync ?tc (fedNamespaceResource env c tc) (nextChan ?c4) None True]\<rparr>,
        None)"
      by (simp add: steps refreshStep_run_ok [OF gen open4 succ4] same4 name4)
    have "stopChannels ?c' (Name tc) = Some (nextChan ?c4)"
      by (simp add: flds(1) run)
    moreover have "effects (fst (activeSteps env tc c)) = effects ?c4 @
        (case stopChannels c (Name tc) of None \<Rightarrow> [] | Some ch \<Rightarrow> [EvClose ch]) @
        [EvStartSync ?tc (fedNamespaceResource env c tc) (nextChan ?c4) None True]"
      by (simp add: run)
    then have "newEffects c ?c' =
        es1 @ es4 @ (case stopChannels c (Name tc) of None \<Rightarrow> [] | Some ch \<Rightarrow> [EvClose ch]) @
        [EvStartSync ?tc (fedNamespaceResource env c tc) (nextChan ?c4) None True] @ esP"
      by (intro newEffects_append) (simp add: esP(1) es4(1) es1(1))
    ultimately show ?thesis
      using next4
      by (auto simp: es1(2) es4(2) esP(2) isSyncStart_def split: option.splits)
  qed
  have fails: "stopChannels ?c' (Name tc) = None \<and> snd (reconcile env qn c) = Returned StatusError"
    if "\<not> syncStartSucceeds env c tc"
  proof -
    have fail4: "\<not> syncStartSucceeds env ?c4 ?tc" using that by (simp add: same4)
    show ?thesis
      using refreshStep_run_fails [OF gen open4 fail4]
      by (simp add: flds(1) flds(7) steps)
  qed
  from closed ok fails show ?thesis by blast
qed


theorem reconcile_refreshes_sync_controller_witness:
  "objCopyFromCache allCallsSucceed
     (holding [(''configmaps'', 0)] (controllerWith clusterWide [configmapsChanged, namespaces]))
     (keyOf configmapsChanged) = Inr (Some configmapsChanged) \<and>
   wellFormed
     (holding [(''configmaps'', 0)] (controllerWith clusterWide [configmapsChanged, namespaces])) \<and>
   \<not> startsSync
       (holding [(''configmaps'', 0)] (controllerWith clusterWide [configmapsChanged, namespaces]))
       configmapsChanged \<and>
   \<not> stopsSync allCallsSucceed
       (holding [(''configmaps'', 0)] (controllerWith clusterWide [configmapsChanged, namespaces]))
       configmapsChanged \<and>
   ObservedGeneration configmapsChanged \<noteq> Generation configmapsChanged \<and>
   0 \<in> closedChans
     (fst (reconcile allCallsSucceed (keyOf configmapsChanged)
        (holding [(''configmaps'', 0)]
           (controllerWith clusterWide [configmapsChanged, namespaces])))) \<and>
   (\<exists>new. 1 \<le> new \<and>
      stopChannels
        (fst (reconcile allCallsSucceed (keyOf configmapsChanged)
           (holding [(''configmaps'', 0)]
              (controllerWith clusterWide [configmapsChanged, namespaces]))))
        ''configmaps'' = Some new) \<and>
   stopChannels
     (fst (reconcile (allCallsSucceed\<lparr>startSyncErr := True\<rparr>) (keyOf configmapsChanged)
        (holding [(''configmaps'', 0)]
           (controllerWith clusterWide [configmapsChanged, namespaces]))))
     ''configmaps'' = None \<and>
   snd (reconcile (allCallsSucceed\<lparr>startSyncErr := True\<rparr>) (keyOf configmapsChanged)
          (holding [(''configmaps'', 0)]
             (controllerWith clusterWide [configmapsChanged, namespaces])))
     = Returned StatusError"
proof -
  let ?c = "holding [(''configmaps'', 0)]
              (controllerWith clusterWide [configmapsChanged, namespaces])"
  let ?bad = "allCallsSucceed\<lparr>startSyncErr := True\<rparr>"
  have h1: "objCopyFromCache allCallsSucceed ?c (keyOf configmapsChanged)
      = Inr (Some configmapsChanged)"
    and h1': "objCopyFromCache ?bad ?c (keyOf configmapsChanged) = Inr (Some configmapsChanged)"
    by (simp_all add: objCopyFromCache_def example_defs)
  have h2: "DeletionTimestamp configmapsChanged = None" by (simp add: example_defs)
  have h3: "\<not> specialCase ?c configmapsChanged" by (simp add: example_defs notion_defs)
  have h4: "finalizerEnsured env configmapsChanged" for env
    by (simp add: example_defs notion_defs ContainsFinalizer_def)
  have h5: "wellFormed ?c" by (auto simp: wellFormed_def example_defs split: if_splits)
  have h6: "\<not> startsSync ?c configmapsChanged" by (simp add: example_defs notion_defs)
  have h7: "\<not> stopsSync allCallsSucceed ?c configmapsChanged"
    and h7': "\<not> stopsSync ?bad ?c configmapsChanged"
    by (simp_all add: example_defs notion_defs namespaceFTCExists_def
          getFederatedNamespaceAPIResource_def)
  have h8: "\<not> statusStepFails env ?c configmapsChanged" for env
    by (simp add: example_defs notion_defs isEnabledFederatedServiceStatusCollection_def)
  have h9: "ObservedGeneration configmapsChanged \<noteq> Generation configmapsChanged"
    by (simp add: example_defs)
  have reg: "stopChannels ?c (Name configmapsChanged) = Some 0" "nextChan ?c = 1"
    "Name configmapsChanged = ''configmaps''"
    by (simp_all add: example_defs)
  have good: "syncStartSucceeds allCallsSucceed ?c configmapsChanged"
    by (simp add: example_defs notion_defs namespaceFTCExists_def
          getFederatedNamespaceAPIResource_def)
  have bad: "\<not> syncStartSucceeds ?bad ?c configmapsChanged"
    by (simp add: example_defs notion_defs)
  note A = reconcile_refreshes_sync_controller [OF h1 h2 h3 h4 h5 h6 h7 h8 h9]
  note B = reconcile_refreshes_sync_controller [OF h1' h2 h3 h4 h5 h6 h7' h8 h9]
  have "0 \<in> closedChans (fst (reconcile allCallsSucceed (keyOf configmapsChanged) ?c))"
    using A reg(1) by blast
  moreover have "\<exists>new. 1 \<le> new \<and>
      stopChannels (fst (reconcile allCallsSucceed (keyOf configmapsChanged) ?c)) ''configmaps''
        = Some new"
    using A good reg(2,3) by auto
  moreover have
    "stopChannels (fst (reconcile ?bad (keyOf configmapsChanged) ?c)) ''configmaps'' = None \<and>
     snd (reconcile ?bad (keyOf configmapsChanged) ?c) = Returned StatusError"
    using B bad reg(3) by auto
  ultimately show ?thesis
    using h1 h5 h6 h7 h9 by simp
qed

text \<open>
  The claim as stated fails where the start of the new sync controller fails: the old
  channel is closed and removed, no sync controller is stored under the name and the
  reconcile returns Error.
\<close>

theorem reconcile_refreshes_sync_controller_counterexample:
  "objCopyFromCache (allCallsSucceed\<lparr>startSyncErr := True\<rparr>)
     (holding [(''configmaps'', 0)] (controllerWith clusterWide [configmapsChanged, namespaces]))
     (keyOf configmapsChanged) = Inr (Some configmapsChanged) \<and>
   \<not> startsSync
       (holding [(''configmaps'', 0)] (controllerWith clusterWide [configmapsChanged, namespaces]))
       configmapsChanged \<and>
   \<not> stopsSync (allCallsSucceed\<lparr>startSyncErr := True\<rparr>)
       (holding [(''configmaps'', 0)] (controllerWith clusterWide [configmapsChanged, namespaces]))
       configmapsChanged \<and>
   ObservedGeneration configmapsChanged \<noteq> Generation configmapsChanged \<and>
   stopChannels
     (fst (reconcile (allCallsSucceed\<lparr>startSyncErr := True\<rparr>) (keyOf configmapsChanged)
        (holding [(''configmaps'', 0)]
           (controllerWith clusterWide [configmapsChanged, namespaces]))))
     ''configmaps'' = None \<and>
   closedChans
     (fst (reconcile (allCallsSucceed\<lparr>startSyncErr := True\<rparr>) (keyOf configmapsChanged)
        (holding [(''configmaps'', 0)]
           (controllerWith clusterWide [configmapsChanged, namespaces])))) = {0, 1} \<and>
   snd (reconcile (allCallsSucceed\<lparr>startSyncErr := True\<rparr>) (keyOf configmapsChanged)
          (holding [(''configmaps'', 0)]
             (controllerWith clusterWide [configmapsChanged, namespaces])))
     = Returned StatusError"
  by (simp add: reconcile_eval example_defs notion_defs insert_commute)

text \<open>
  C9, as amended. A reconcile of a descriptor starts a status controller only when the
  RawResourceStatusCollection feature is disabled, the status-collection flag of the
  descriptor is enabled, its name is "services" and it defines a status API resource;
  for any other descriptor no status controller is started. A status controller that is
  stored for such a descriptor is stopped (its channel closed, its entry removed) when,
  outside the special case of the namespaced control plane and in a well-formed
  controller, the descriptor is being deleted, or its finalizer is present or added by
  a patch that succeeds and the start of the sync controller does not fail.
\<close>

theorem status_controller_only_for_services:
  assumes "objCopyFromCache env c qn = Inr (Some tc)"
  shows
    "((\<exists>e \<in> set (newEffects c (fst (reconcile env qn c))). isStatusStart e) \<longrightarrow>
        \<not> RawResourceStatusCollection (controllerConfig c) \<and> StatusEnabled tc \<and>
        Name tc = ''services'' \<and> StatusType tc \<noteq> None) \<and>
     (\<forall>ch. \<not> (\<not> RawResourceStatusCollection (controllerConfig c) \<and> StatusEnabled tc \<and>
              Name tc = ''services'' \<and> StatusType tc \<noteq> None) \<and>
           stopChannels c (statusKeyOf tc) = Some ch \<and>
           \<not> specialCase c tc \<and> wellFormed c \<and>
           (DeletionTimestamp tc \<noteq> None \<or>
            (finalizerEnsured env tc \<and> \<not> syncStepFails env c tc)) \<longrightarrow>
        stopChannels (fst (reconcile env qn c)) (statusKeyOf tc) = None \<and>
        ch \<in> closedChans (fst (reconcile env qn c)))"
proof -
  have enabled: "statusControllerEnabled c tc \<longleftrightarrow>
      \<not> RawResourceStatusCollection (controllerConfig c) \<and> StatusEnabled tc \<and>
      Name tc = ''services'' \<and> StatusType tc \<noteq> None"
    by (auto simp: statusControllerEnabled_def isEnabledFederatedServiceStatusCollection_def
          split: option.splits)
  have started: "statusControllerEnabled c tc"
    if "\<exists>e \<in> set (newEffects c (fst (reconcile env qn c))). isStatusStart e"
  proof (rule ccontr)
    assume "\<not> statusControllerEnabled c tc"
    then have "\<not> startsStatus c tc" by (simp add: startsStatus_def)
    then have "filter isStatusStart (newEffects c (fst (reconcile env qn c))) = []"
      using reconcile_status_start_only_if_enabled [OF assms] by blast
    with that show False by (auto simp: filter_empty_conv)
  qed
  have stopped: "stopChannels (fst (reconcile env qn c)) (statusKeyOf tc) = None \<and>
      ch \<in> closedChans (fst (reconcile env qn c))"
    if off: "\<not> statusControllerEnabled c tc" and reg: "stopChannels c (statusKeyOf tc) = Some ch"
      and ns: "\<not> specialCase c tc" and wf: "wellFormed c"
      and reach: "DeletionTimestamp tc \<noteq> None \<or>
        (finalizerEnsured env tc \<and> \<not> syncStepFails env c tc)" for ch
  proof (cases "DeletionTimestamp tc")
    case (Some t)
    then have "DeletionTimestamp tc \<noteq> None" by simp
    from reconcile_deleted [OF assms ns this]
    have "stopChannels (fst (reconcile env qn c)) =
        (stopChannels c)(Name tc := None, statusKeyOf tc := None) \<and>
      closedChans (fst (reconcile env qn c)) =
        closedChans c \<union> set_option (stopChannels c (Name tc)) \<union>
        set_option (stopChannels c (statusKeyOf tc))"
      by (simp only: reconcileDeleted_eq [OF wf]) simp
    then show ?thesis
      using reg by simp
  next
    case None
    with reach have "finalizerEnsured env tc" "\<not> syncStepFails env c tc" by auto
    then show ?thesis
      using reconcile_active_stops_status [OF assms None ns _ wf _ off reg] by blast
  qed
  from started stopped show ?thesis unfolding enabled by blast
qed


theorem status_controller_only_for_services_witness:
  "objCopyFromCache allCallsSucceed (controllerWith clusterWide [services, namespaces])
     (keyOf services) = Inr (Some services) \<and>
   (\<exists>e \<in> set (newEffects (controllerWith clusterWide [services, namespaces])
                  (fst (reconcile allCallsSucceed (keyOf services)
                          (controllerWith clusterWide [services, namespaces])))).
      isStatusStart e) \<and>
   \<not> RawResourceStatusCollection
       (controllerConfig (controllerWith clusterWide [services, namespaces])) \<and>
   StatusEnabled services \<and> Name services = ''services'' \<and> StatusType services \<noteq> None \<and>
   objCopyFromCache allCallsSucceed
     (holding [(''services'', 0), (''services/status'', 1)]
        (controllerWith clusterWide [servicesNoType, namespaces]))
     (keyOf servicesNoType) = Inr (Some servicesNoType) \<and>
   StatusType servicesNoType = None \<and>
   stopChannels
     (holding [(''services'', 0), (''services/status'', 1)]
        (controllerWith clusterWide [servicesNoType, namespaces]))
     (statusKeyOf servicesNoType) = Some 1 \<and>
   wellFormed
     (holding [(''services'', 0), (''services/status'', 1)]
        (controllerWith clusterWide [servicesNoType, namespaces])) \<and>
   stopChannels
     (fst (reconcile allCallsSucceed (keyOf servicesNoType)
        (holding [(''services'', 0), (''services/status'', 1)]
           (controllerWith clusterWide [servicesNoType, namespaces]))))
     (statusKeyOf servicesNoType) = None \<and>
   1 \<in> closedChans
     (fst (reconcile allCallsSucceed (keyOf servicesNoType)
        (holding [(''services'', 0), (''services/status'', 1)]
           (controllerWith clusterWide [servicesNoType, namespaces]))))"
proof -
  let ?A = "controllerWith clusterWide [services, namespaces]"
  let ?B = "holding [(''services'', 0), (''services/status'', 1)]
              (controllerWith clusterWide [servicesNoType, namespaces])"
  have a1: "objCopyFromCache allCallsSucceed ?A (keyOf services) = Inr (Some services)"
    by (simp add: objCopyFromCache_def example_defs)
  have a2: "\<exists>e \<in> set (newEffects ?A (fst (reconcile allCallsSucceed (keyOf services) ?A))).
      isStatusStart e"
    by (simp add: reconcile_eval example_defs notion_defs)
  have b1: "objCopyFromCache allCallsSucceed ?B (keyOf servicesNoType)
      = Inr (Some servicesNoType)"
    by (simp add: objCopyFromCache_def example_defs)
  have b2: "wellFormed ?B" by (auto simp: wellFormed_def example_defs split: if_splits)
  have b3: "StatusType servicesNoType = None \<and>
      stopChannels ?B (statusKeyOf servicesNoType) = Some 1 \<and>
      \<not> specialCase ?B servicesNoType \<and> finalizerEnsured allCallsSucceed servicesNoType \<and>
      \<not> syncStepFails allCallsSucceed ?B servicesNoType"
    by (simp add: example_defs notion_defs ContainsFinalizer_def)
  have "\<not> RawResourceStatusCollection (controllerConfig ?A) \<and> StatusEnabled services \<and>
      Name services = ''services'' \<and> StatusType services \<noteq> None"
    using status_controller_only_for_services [OF a1] a2 by blast
  moreover have
    "stopChannels (fst (reconcile allCallsSucceed (keyOf servicesNoType) ?B))
       (statusKeyOf servicesNoType) = None \<and>
     1 \<in> closedChans (fst (reconcile allCallsSucceed (keyOf servicesNoType) ?B))"
    using status_controller_only_for_services [OF b1] b2 b3 by blast
  ultimately show ?thesis
    using a1 a2 b1 b2 b3 by simp
qed

text \<open>
  The claim as stated fails where reconcile returns before line 234: the descriptor
  named services has no status type, its status controller is stored, and the start of
  its sync controller fails for lack of the descriptor of namespaces; the reconcile
  returns Error and the status controller is left running.
\<close>

theorem status_controller_only_for_services_counterexample:
  "objCopyFromCache allCallsSucceed
     (holding [(''services/status'', 0)] (controllerWith clusterWide [servicesNoType]))
     (keyOf servicesNoType) = Inr (Some servicesNoType) \<and>
   StatusType servicesNoType = None \<and>
   stopChannels
     (holding [(''services/status'', 0)] (controllerWith clusterWide [servicesNoType]))
     (statusKeyOf servicesNoType) = Some 0 \<and>
   stopChannels
     (fst (reconcile allCallsSucceed (keyOf servicesNoType)
        (holding [(''services/status'', 0)] (controllerWith clusterWide [servicesNoType]))))
     (statusKeyOf servicesNoType) = Some 0 \<and>
   0 \<notin> closedChans
     (fst (reconcile allCallsSucceed (keyOf servicesNoType)
        (holding [(''services/status'', 0)] (controllerWith clusterWide [servicesNoType])))) \<and>
   snd (reconcile allCallsSucceed (keyOf servicesNoType)
          (holding [(''services/status'', 0)] (controllerWith clusterWide [servicesNoType])))
     = Returned StatusError"
  by (simp add: reconcile_eval example_defs notion_defs)

text \<open>
  C10, as amended. Take a reconcile of a descriptor outside the special case of the
  namespaced control plane. Every entry of the map that is new after the reconcile
  holds the stop channel of a controller that the reconcile started successfully. If
  the descriptor is not being deleted and its finalizer is present or added by a patch
  that succeeds, then: when the start of the sync controller at line 226 fails, the
  reconcile returns Error, the map is as it was before, and the channel made for the
  start, if one was made, is closed; when that start does not fail and the start of the
  status controller fails, in a well-formed controller, the reconcile returns Error, no
  entry is stored under the status key, and the channel made for the start is closed.
\<close>

theorem failed_start_registers_nothing:
  assumes "objCopyFromCache env c qn = Inr (Some tc)"
    and "\<not> specialCase c tc"
  shows
    "(\<forall>k ch. stopChannels (fst (reconcile env qn c)) k = Some ch \<longrightarrow>
        stopChannels c k = Some ch \<or>
        (\<exists>e \<in> set (newEffects c (fst (reconcile env qn c))). startedWith e ch)) \<and>
     (DeletionTimestamp tc = None \<and> finalizerEnsured env tc \<and> syncStepFails env c tc \<longrightarrow>
        snd (reconcile env qn c) = Returned StatusError \<and>
        stopChannels (fst (reconcile env qn c)) = stopChannels c \<and>
        (\<forall>ch. nextChan c \<le> ch \<and> ch < nextChan (fst (reconcile env qn c)) \<longrightarrow>
           ch \<in> closedChans (fst (reconcile env qn c)))) \<and>
     (DeletionTimestamp tc = None \<and> finalizerEnsured env tc \<and> wellFormed c \<and>
      \<not> syncStepFails env c tc \<and> statusStepFails env c tc \<longrightarrow>
        snd (reconcile env qn c) = Returned StatusError \<and>
        stopChannels (fst (reconcile env qn c)) (statusKeyOf tc) = None \<and>
        (\<exists>ch. filter isStatusStart (newEffects c (fst (reconcile env qn c))) =
                [EvStartStatus (AddFinalizer tc finalizer) ch None False] \<and>
              ch \<in> closedChans (fst (reconcile env qn c))))"
proof -
  let ?c' = "fst (reconcile env qn c)"
  let ?tc = "AddFinalizer tc finalizer"
  let ?c2 = "afterFinalizer env tc c"
  have part1: "stopChannels c k = Some ch \<or> (\<exists>e \<in> set (newEffects c ?c'). startedWith e ch)"
    if reg: "stopChannels ?c' k = Some ch" for k ch
  proof -
    obtain es where es: "effects ?c' = effects c @ es"
      "\<forall>k ch. stopChannels ?c' k = Some ch \<longrightarrow>
         stopChannels c k = Some ch \<or> (\<exists>e \<in> set es. startedWith e ch)"
      using reconcile_onlyStarted [OF assms] unfolding onlyStartedRegistered_def by blast
    have "newEffects c ?c' = es" using es(1) by (rule newEffects_append)
    with es(2) reg show ?thesis by blast
  qed
  have part2: "snd (reconcile env qn c) = Returned StatusError \<and>
      stopChannels ?c' = stopChannels c \<and>
      (\<forall>ch. nextChan c \<le> ch \<and> ch < nextChan ?c' \<longrightarrow> ch \<in> closedChans ?c')"
    if live: "DeletionTimestamp tc = None" and fin: "finalizerEnsured env tc"
      and fails: "syncStepFails env c tc"
  proof -
    note flds = reconcile_active_fields [OF assms live fin]
    have starts: "startsSync c tc" and no: "\<not> syncStartSucceeds env c tc"
      using fails by (simp_all add: syncStepFails_def)
    show ?thesis
    proof (cases "Namespaced tc \<and> \<not> namespaceFTCExists env c")
      case True
      then have "syncStepOf env tc c = (?c2, Some (Returned StatusError))"
        by (simp add: syncStepOf_def starts syncStep_start_no_namespaces)
      then have "activeSteps env tc c = (?c2, Some (Returned StatusError))"
        by (simp add: activeSteps_def)
      then show ?thesis by (auto simp: flds)
    next
      case False
      with no have "startSyncErr env" by (auto simp: syncStartSucceeds_def)
      with False have "syncStepOf env tc c =
          (?c2\<lparr>closedChans := insert (nextChan c) (closedChans c),
              nextChan := Suc (nextChan c),
              effects := effects ?c2 @
                [EvStartSync ?tc (fedNamespaceResource env c tc) (nextChan c)
                   (stopChannels c (Name tc)) False,
                 EvClose (nextChan c)]\<rparr>, Some (Returned StatusError))"
        by (simp add: syncStepOf_def starts syncStep_start_err)
      then have "activeSteps env tc c =
          (?c2\<lparr>closedChans := insert (nextChan c) (closedChans c),
              nextChan := Suc (nextChan c),
              effects := effects ?c2 @
                [EvStartSync ?tc (fedNamespaceResource env c tc) (nextChan c)
                   (stopChannels c (Name tc)) False,
                 EvClose (nextChan c)]\<rparr>, Some (Returned StatusError))"
        by (simp add: activeSteps_def)
      then show ?thesis by (auto simp: flds)
    qed
  qed
  have part3: "snd (reconcile env qn c) = Returned StatusError \<and>
      stopChannels ?c' (statusKeyOf tc) = None \<and>
      (\<exists>ch. filter isStatusStart (newEffects c ?c') = [EvStartStatus ?tc ch None False] \<and>
            ch \<in> closedChans ?c')"
    if live: "DeletionTimestamp tc = None" and fin: "finalizerEnsured env tc"
      and wf: "wellFormed c" and sync: "\<not> syncStepFails env c tc"
      and fails: "statusStepFails env c tc"
  proof -
    note flds = reconcile_active_fields [OF assms live fin]
    let ?c3 = "fst (syncStepOf env tc c)"
    have goes: "snd (syncStepOf env tc c) = None"
      using wf sync by (rule syncStepOf_goes_on)
    have starts: "startsStatus c tc" and err: "startStatusErr env"
      using fails by (simp_all add: statusStepFails_def)
    then have none: "stopChannels c (statusKeyOf tc) = None" by (simp add: startsStatus_def)
    have none3: "stopChannels ?c3 (statusKeyOf tc) = None"
      by (simp add: syncStepOf_frame(1) none)
    let ?c4 = "?c3\<lparr>closedChans := insert (nextChan ?c3) (closedChans ?c3),
        nextChan := Suc (nextChan ?c3),
        effects := effects ?c3 @
          [EvStartStatus ?tc (nextChan ?c3) None False, EvClose (nextChan ?c3)]\<rparr>"
    have st: "statusStepOf env tc c ?c3 = (?c4, Some (Returned StatusError))"
      by (simp add: statusStepOf_def starts statusStep_start_err [OF err] none3)
    have steps: "activeSteps env tc c = (?c4, Some (Returned StatusError))"
      by (simp add: activeSteps_def andThen_go_on [OF goes] st)
    obtain es3 where es3: "effects ?c3 = effects c @ es3" "filter isStatusStart es3 = []"
      using syncStepOf_frame(3) by blast
    obtain esP where esP: "effects ?c' = effects (fst (activeSteps env tc c)) @ esP"
      "filter isStatusStart esP = []"
      using flds(6) by blast
    have "newEffects c ?c' =
        es3 @ [EvStartStatus ?tc (nextChan ?c3) None False, EvClose (nextChan ?c3)] @ esP"
      by (intro newEffects_append) (simp add: esP(1) steps es3(1))
    then have "filter isStatusStart (newEffects c ?c') =
        [EvStartStatus ?tc (nextChan ?c3) None False]"
      by (simp add: es3(2) esP(2) isStatusStart_def)
    moreover have "nextChan ?c3 \<in> closedChans ?c'" by (simp add: flds(2) steps)
    moreover have "snd (reconcile env qn c) = Returned StatusError"
      by (simp add: flds(7) steps)
    moreover have "stopChannels ?c' (statusKeyOf tc) = None"
      by (simp add: flds(1) steps none3)
    ultimately show ?thesis by blast
  qed
  from part1 part2 part3 show ?thesis by blast
qed


theorem failed_start_registers_nothing_witness:
  "objCopyFromCache (allCallsSucceed\<lparr>startSyncErr := True\<rparr>)
     (controllerWith clusterWide [configmaps, namespaces]) (keyOf configmaps)
     = Inr (Some configmaps) \<and>
   \<not> specialCase (controllerWith clusterWide [configmaps, namespaces]) configmaps \<and>
   syncStepFails (allCallsSucceed\<lparr>startSyncErr := True\<rparr>)
     (controllerWith clusterWide [configmaps, namespaces]) configmaps \<and>
   snd (reconcile (allCallsSucceed\<lparr>startSyncErr := True\<rparr>) (keyOf configmaps)
          (controllerWith clusterWide [configmaps, namespaces])) = Returned StatusError \<and>
   stopChannels
     (fst (reconcile (allCallsSucceed\<lparr>startSyncErr := True\<rparr>) (keyOf configmaps)
             (controllerWith clusterWide [configmaps, namespaces])))
     = stopChannels (controllerWith clusterWide [configmaps, namespaces]) \<and>
   objCopyFromCache (allCallsSucceed\<lparr>startStatusErr := True\<rparr>)
     (controllerWith clusterWide [services, namespaces]) (keyOf services)
     = Inr (Some services) \<and>
   wellFormed (controllerWith clusterWide [services, namespaces]) \<and>
   statusStepFails (allCallsSucceed\<lparr>startStatusErr := True\<rparr>)
     (controllerWith clusterWide [services, namespaces]) services \<and>
   snd (reconcile (allCallsSucceed\<lparr>startStatusErr := True\<rparr>) (keyOf services)
          (controllerWith clusterWide [services, namespaces])) = Returned StatusError \<and>
   stopChannels
     (fst (reconcile (allCallsSucceed\<lparr>startStatusErr := True\<rparr>) (keyOf services)
             (controllerWith clusterWide [services, namespaces])))
     (statusKeyOf services) = None \<and>
   stopChannels
     (fst (reconcile (allCallsSucceed\<lparr>startStatusErr := True\<rparr>) (keyOf services)
             (controllerWith clusterWide [services, namespaces])))
     ''services'' = Some 0 \<and>
   (\<exists>e \<in> set (newEffects (controllerWith clusterWide [services, namespaces])
                  (fst (reconcile (allCallsSucceed\<lparr>startStatusErr := True\<rparr>)
                          (keyOf services)
                          (controllerWith clusterWide [services, namespaces])))).
      startedWith e 0)"
proof -
  let ?A = "controllerWith clusterWide [configmaps, namespaces]"
  let ?envA = "allCallsSucceed\<lparr>startSyncErr := True\<rparr>"
  let ?B = "controllerWith clusterWide [services, namespaces]"
  let ?envB = "allCallsSucceed\<lparr>startStatusErr := True\<rparr>"
  have a1: "objCopyFromCache ?envA ?A (keyOf configmaps) = Inr (Some configmaps)"
    by (simp add: objCopyFromCache_def example_defs)
  have a2: "\<not> specialCase ?A configmaps" by (simp add: example_defs notion_defs)
  have a3: "DeletionTimestamp configmaps = None \<and> finalizerEnsured ?envA configmaps \<and>
      syncStepFails ?envA ?A configmaps"
    by (simp add: example_defs notion_defs ContainsFinalizer_def)
  have b1: "objCopyFromCache ?envB ?B (keyOf services) = Inr (Some services)"
    by (simp add: objCopyFromCache_def example_defs)
  have b2: "\<not> specialCase ?B services" by (simp add: example_defs notion_defs)
  have b3: "wellFormed ?B" by (simp add: wellFormed_def example_defs)
  have b4: "DeletionTimestamp services = None \<and> finalizerEnsured ?envB services \<and>
      \<not> syncStepFails ?envB ?B services \<and> statusStepFails ?envB ?B services"
    by (simp add: example_defs notion_defs ContainsFinalizer_def namespaceFTCExists_def
          getFederatedNamespaceAPIResource_def isEnabledFederatedServiceStatusCollection_def)
  have b5: "stopChannels (fst (reconcile ?envB (keyOf services) ?B)) ''services'' = Some 0"
    by (simp add: reconcile_eval example_defs)
  have b6: "stopChannels ?B ''services'' \<noteq> Some 0" by (simp add: example_defs)
  note A = failed_start_registers_nothing [OF a1 a2]
  note B = failed_start_registers_nothing [OF b1 b2]
  have "snd (reconcile ?envA (keyOf configmaps) ?A) = Returned StatusError \<and>
      stopChannels (fst (reconcile ?envA (keyOf configmaps) ?A)) = stopChannels ?A"
    using A a3 by blast
  moreover have "snd (reconcile ?envB (keyOf services) ?B) = Returned StatusError \<and>
      stopChannels (fst (reconcile ?envB (keyOf services) ?B)) (statusKeyOf services) = None"
    using B b3 b4 by blast
  moreover have "\<exists>e \<in> set (newEffects ?B (fst (reconcile ?envB (keyOf services) ?B))).
      startedWith e 0"
    using B b5 b6 by blast
  ultimately show ?thesis
    using a1 a2 a3 b1 b3 b4 b5 by simp
qed

text \<open>
  The claim as stated fails where the start of the status controller fails after the
  sync controller was started in the same reconcile: the reconcile returns Error and
  the map is not as it was, since the sync controller's channel is stored in it.
\<close>

theorem failed_start_registers_nothing_counterexample:
  "objCopyFromCache (allCallsSucceed\<lparr>startStatusErr := True\<rparr>)
     (controllerWith clusterWide [services, namespaces]) (keyOf services)
     = Inr (Some services) \<and>
   statusStepFails (allCallsSucceed\<lparr>startStatusErr := True\<rparr>)
     (controllerWith clusterWide [services, namespaces]) services \<and>
   snd (reconcile (allCallsSucceed\<lparr>startStatusErr := True\<rparr>) (keyOf services)
          (controllerWith clusterWide [services, namespaces])) = Returned StatusError \<and>
   stopChannels (controllerWith clusterWide [services, namespaces]) ''services'' = None \<and>
   stopChannels
     (fst (reconcile (allCallsSucceed\<lparr>startStatusErr := True\<rparr>) (keyOf services)
             (controllerWith clusterWide [services, namespaces])))
     ''services'' = Some 0 \<and>
   stopChannels
     (fst (reconcile (allCallsSucceed\<lparr>startStatusErr := True\<rparr>) (keyOf services)
             (controllerWith clusterWide [services, namespaces])))
     \<noteq> stopChannels (controllerWith clusterWide [services, namespaces])"
proof -
  let ?B = "controllerWith clusterWide [services, namespaces]"
  let ?envB = "allCallsSucceed\<lparr>startStatusErr := True\<rparr>"
  have 1: "stopChannels (fst (reconcile ?envB (keyOf services) ?B)) ''services'' = Some 0"
    by (simp add: reconcile_eval example_defs)
  have 2: "stopChannels ?B ''services'' = None" by (simp add: example_defs)
  have 3: "snd (reconcile ?envB (keyOf services) ?B) = Returned StatusError"
    by (simp add: reconcile_eval example_defs)
  have 4: "objCopyFromCache ?envB ?B (keyOf services) = Inr (Some services) \<and>
      statusStepFails ?envB ?B services"
    by (simp add: objCopyFromCache_def example_defs notion_defs
          isEnabledFederatedServiceStatusCollection_def)
  from 1 2 have "stopChannels (fst (reconcile ?envB (keyOf services) ?B)) \<noteq> stopChannels ?B"
    by (metis option.distinct(1))
  with 1 2 3 4 show ?thesis by simp
qed

text \<open>
  C6. In every state the controller reaches, at most one sync controller and at most
  one status controller run for a descriptor name: each list of the stop channels of
  the controllers started and not stopped has at most one element, and that channel is
  the one the map holds under the name, or under the name followed by "/status"; and
  every start that was ever attempted, of either kind, found no entry under its key.
\<close>

theorem at_most_one_controller_per_descriptor:
  assumes "reachable c"
  shows
    "length (runningSync c name) \<le> 1 \<and>
     length (runningStatus c name) \<le> 1 \<and>
     (\<forall>ch \<in> set (runningSync c name). stopChannels c name = Some ch) \<and>
     (\<forall>ch \<in> set (runningStatus c name). stopChannels c (name @ ''/status'') = Some ch) \<and>
     (\<forall>d r ch prev ok. EvStartSync d r ch prev ok \<in> set (effects c) \<longrightarrow> prev = None) \<and>
     (\<forall>d ch prev ok. EvStartStatus d ch prev ok \<in> set (effects c) \<longrightarrow> prev = None)"
proof -
  have inv: "invariant c" using assms by (rule reachable_invariant)
  have sync: "stopChannels c name = Some ch" if "ch \<in> set (runningSync c name)" for ch
    using that invariant_sync(3) [OF inv] by (auto simp: runningSync_mem)
  have status: "stopChannels c (name @ ''/status'') = Some ch"
    if "ch \<in> set (runningStatus c name)" for ch
    using that invariant_status(3) [OF inv] by (auto simp: runningStatus_mem statusKeyOf_def)
  have "length (runningSync c name) \<le> 1"
  proof (cases "stopChannels c name")
    case None
    with sync have "runningSync c name = []" by (cases "runningSync c name") auto
    then show ?thesis by simp
  next
    case (Some a)
    with sync have "\<forall>x \<in> set (runningSync c name). x = a" by auto
    with runningSync_distinct [OF inv] show ?thesis
      using short_if_all_equal by fastforce
  qed
  moreover have "length (runningStatus c name) \<le> 1"
  proof (cases "stopChannels c (name @ ''/status'')")
    case None
    with status have "runningStatus c name = []" by (cases "runningStatus c name") auto
    then show ?thesis by simp
  next
    case (Some a)
    with status have "\<forall>x \<in> set (runningStatus c name). x = a" by auto
    with runningStatus_distinct [OF inv] show ?thesis
      using short_if_all_equal by fastforce
  qed
  ultimately show ?thesis
    using sync status invariant_sync(2) [OF inv] invariant_status(2) [OF inv] by blast
qed

theorem at_most_one_controller_per_descriptor_witness:
  "reachable (fst (reconcile allCallsSucceed (keyOf services)
                     (controllerWith clusterWide [services, namespaces]))) \<and>
   runningSync (fst (reconcile allCallsSucceed (keyOf services)
                       (controllerWith clusterWide [services, namespaces]))) ''services''
     = [0] \<and>
   runningStatus (fst (reconcile allCallsSucceed (keyOf services)
                         (controllerWith clusterWide [services, namespaces]))) ''services''
     = [1] \<and>
   stopChannels (fst (reconcile allCallsSucceed (keyOf services)
                        (controllerWith clusterWide [services, namespaces]))) ''services''
     = Some 0 \<and>
   stopChannels (fst (reconcile allCallsSucceed (keyOf services)
                        (controllerWith clusterWide [services, namespaces])))
     (''services'' @ ''/status'') = Some 1"
proof -
  let ?B = "controllerWith clusterWide [services, namespaces]"
  let ?X = "fst (reconcile allCallsSucceed (keyOf services) ?B)"
  have r0: "reachable ?B"
    unfolding controllerWith_def by (rule reachable_informer [OF reachable_new])
  have s: "snd (reconcile allCallsSucceed (keyOf services) ?B) = Returned StatusAllOK"
    by (simp add: reconcile_eval example_defs)
  have "reconcile allCallsSucceed (keyOf services) ?B = (?X, Returned StatusAllOK)"
    using s by (simp add: prod_eq_iff)
  with r0 have r: "reachable ?X" by (rule reachable_reconcile)
  have e1: "runningSync ?X ''services'' = [0]"
    by (simp add: runningSync_def reconcile_eval example_defs)
  have e2: "runningStatus ?X ''services'' = [1]"
    by (simp add: runningStatus_def reconcile_eval example_defs)
  note T = at_most_one_controller_per_descriptor [OF r, of "''services''"]
  from T have "\<forall>ch \<in> set (runningSync ?X ''services''). stopChannels ?X ''services'' = Some ch"
    by blast
  then have t1: "stopChannels ?X ''services'' = Some 0" by (simp only: e1) simp
  from T have "\<forall>ch \<in> set (runningStatus ?X ''services'').
      stopChannels ?X (''services'' @ ''/status'') = Some ch"
    by blast
  then have t2: "stopChannels ?X (''services'' @ ''/status'') = Some 1"
    by (simp only: e2) simp
  from r e1 e2 t1 t2 show ?thesis by blast
qed

end
